theory Spec2Isabelle
  imports Main
begin

section \<open>The page: DOM store, objects, timers and promises\<close>

text \<open>
  The program is a TypeScript library running in a browser page. The page is an explicit
  store: DOM nodes, \<open>ModalRegion\<close> objects and \<open>Modal\<close> objects are addresses
  (natural numbers handed out by a counter), and every property the code reads or writes
  is a function from addresses to values. Promises are kept in a list (a promise is its
  index), timers scheduled with \<open>setTimeout\<close> and promise reactions waiting in the
  microtask queue are lists of closures, each closure of the source being one constructor.
  Numbers of milliseconds are whole numbers.
\<close>

datatype payload = Empty | Text string | Markup string

text \<open>The only click handler of the source: the arrow function of \<open>Modal\<close>'s constructor,
  closed over \<open>this\<close>.\<close>

datatype handler = CoverClick nat

text \<open>The two \<open>setTimeout\<close> callbacks of the source: the one of \<open>appear\<close> (closed over
  \<open>this\<close> and its \<open>resolve\<close>) and the one of \<open>disappear\<close> (closed over its \<open>resolve\<close>).\<close>

datatype timer_task = AppearTick nat nat | DisappearTick nat

text \<open>The only promise reaction of the source: \<open>() => this.cover.remove()\<close> of \<open>close\<close>,
  with the promise that \<open>then\<close> returned.\<close>

datatype reaction = CloseThen nat nat

datatype promise = Pending "reaction list" | Fulfilled

text \<open>
  The order in which the script acts on the platform is kept in a journal. The journal is
  not read by the program; every operation of the platform on the document, on a promise
  or on the timers appends its entry when it is carried out (removing a node that has no
  parent and resolving a promise that is settled do nothing and append nothing). In
  \<open>Removed p n\<close> and \<open>Inserted p n\<close> the parent comes first; \<open>Scheduled task t\<close> holds the
  time from which the task may run.
\<close>

datatype effect =
    Created nat
  | AttributeSet nat string string
  | Removed nat nat
  | Inserted nat nat
  | ContentSet nat payload
  | OpacitySet nat string
  | TransitionSet nat string
  | HandlerSet nat handler
  | Promised nat
  | Settled nat
  | Chained nat nat
  | Scheduled timer_task nat

record page =
  nextNode :: nat
  tagName :: "nat \<Rightarrow> string"
  attributes :: "nat \<Rightarrow> (string \<times> string) list"
  parentNode :: "nat \<Rightarrow> nat option"
  children :: "nat \<Rightarrow> nat list"
  modal :: "nat \<Rightarrow> nat option"
  payload :: "nat \<Rightarrow> payload"
  style_opacity :: "nat \<Rightarrow> string option"
  style_transition :: "nat \<Rightarrow> string option"
  onclick :: "nat \<Rightarrow> handler option"
  body :: nat
  window_modalRegion :: "nat option"
  nextRegion :: nat
  region_element :: "nat \<Rightarrow> nat"
  nextModal :: nat
  modal_region :: "nat \<Rightarrow> nat"
  modal_cover :: "nat \<Rightarrow> nat"
  modal_content :: "nat \<Rightarrow> nat"
  modal_animationTime :: "nat \<Rightarrow> int option"
  now :: nat
  timers :: "(nat \<times> timer_task) list"
  microtasks :: "reaction list"
  promises :: "promise list"
  journal :: "effect list"

text \<open>
  A freshly loaded page: the body is node 0 and already holds \<open>k\<close> children of the page's
  own (nodes \<open>1 .. k\<close>); no region is published, no modal exists, nothing is scheduled.
\<close>

definition initial_page :: "nat \<Rightarrow> page" where
  "initial_page k =
     \<lparr> nextNode = Suc k,
       tagName = (\<lambda>n. if n = 0 then ''body'' else ''div''),
       attributes = (\<lambda>n. []),
       parentNode = (\<lambda>n. if 0 < n \<and> n \<le> k then Some 0 else None),
       children = (\<lambda>n. if n = 0 then [1 ..< Suc k] else []),
       modal = (\<lambda>n. None),
       payload = (\<lambda>n. Empty),
       style_opacity = (\<lambda>n. None),
       style_transition = (\<lambda>n. None),
       onclick = (\<lambda>n. None),
       body = 0,
       window_modalRegion = None,
       nextRegion = 0,
       region_element = (\<lambda>r. 0),
       nextModal = 0,
       modal_region = (\<lambda>m. 0),
       modal_cover = (\<lambda>m. 0),
       modal_content = (\<lambda>m. 0),
       modal_animationTime = (\<lambda>m. None),
       now = 0,
       timers = [],
       microtasks = [],
       promises = [],
       journal = [] \<rparr>"

subsection \<open>DOM primitives of the platform\<close>

definition createElement :: "string \<Rightarrow> page \<Rightarrow> nat \<times> page" where
  "createElement tag st =
     (let e = nextNode st in
      (e, st\<lparr> nextNode := Suc e,
              tagName := (tagName st)(e := tag),
              attributes := (attributes st)(e := []),
              parentNode := (parentNode st)(e := None),
              children := (children st)(e := []),
              modal := (modal st)(e := None),
              payload := (payload st)(e := Empty),
              style_opacity := (style_opacity st)(e := None),
              style_transition := (style_transition st)(e := None),
              onclick := (onclick st)(e := None),
              journal := journal st @ [Created e] \<rparr>))"

fun update_attr :: "string \<Rightarrow> string \<Rightarrow> (string \<times> string) list \<Rightarrow> (string \<times> string) list" where
  "update_attr name v [] = [(name, v)]"
| "update_attr name v ((k, w) # kvs) =
     (if k = name then (k, v) # kvs else (k, w) # update_attr name v kvs)"

definition setAttribute :: "nat \<Rightarrow> string \<Rightarrow> string \<Rightarrow> page \<Rightarrow> page" where
  "setAttribute e name v st =
     st\<lparr> attributes := (attributes st)(e := update_attr name v (attributes st e)),
         journal := journal st @ [AttributeSet e name v] \<rparr>"

text \<open>\<open>node.remove()\<close>: a node without a parent is left alone; otherwise it leaves its
  parent's child list and its parent pointer is cleared.\<close>

definition dom_remove :: "nat \<Rightarrow> page \<Rightarrow> page" where
  "dom_remove n st =
     (case parentNode st n of
        None \<Rightarrow> st
      | Some p \<Rightarrow> st\<lparr> children := (children st)(p := remove1 n (children st p)),
                      parentNode := (parentNode st)(n := None),
                      journal := journal st @ [Removed p n] \<rparr>)"

text \<open>\<open>parent.appendChild(child)\<close>: the child first leaves its old parent, then becomes
  the last child.\<close>

definition appendChild :: "nat \<Rightarrow> nat \<Rightarrow> page \<Rightarrow> page" where
  "appendChild p c st =
     (let st1 = dom_remove c st in
      st1\<lparr> children := (children st1)(p := children st1 p @ [c]),
           parentNode := (parentNode st1)(c := Some p),
           journal := journal st1 @ [Inserted p c] \<rparr>)"

definition firstChild :: "page \<Rightarrow> nat \<Rightarrow> nat option" where
  "firstChild st n = (case children st n of [] \<Rightarrow> None | c # cs \<Rightarrow> Some c)"

text \<open>\<open>parent.insertBefore(node, ref)\<close>: with \<open>ref = null\<close> the node is appended; otherwise
  it is placed just before \<open>ref\<close>. (The platform raises when \<open>ref\<close> is not a child of
  \<open>parent\<close>; the source only ever passes \<open>parent.firstChild\<close>, and the model then puts
  the node last.)\<close>

definition insertBefore :: "nat \<Rightarrow> nat \<Rightarrow> nat option \<Rightarrow> page \<Rightarrow> page" where
  "insertBefore p c ref st =
     (let st1 = dom_remove c st;
          cs = children st1 p;
          cs' = (case ref of
                   None \<Rightarrow> cs @ [c]
                 | Some r \<Rightarrow> takeWhile (\<lambda>x. x \<noteq> r) cs @ [c] @ dropWhile (\<lambda>x. x \<noteq> r) cs)
      in st1\<lparr> children := (children st1)(p := cs'),
              parentNode := (parentNode st1)(c := Some p),
              journal := journal st1 @ [Inserted p c] \<rparr>)"

text \<open>Assigning \<open>innerText\<close>, \<open>textContent\<close> or \<open>innerHTML\<close> replaces everything inside
  the element: its element children are detached and the new payload is stored (markup
  is kept unparsed).\<close>

definition replace_inside :: "nat \<Rightarrow> payload \<Rightarrow> page \<Rightarrow> page" where
  "replace_inside e pl st =
     st\<lparr> parentNode := (\<lambda>x. if x \<in> set (children st e) then None else parentNode st x),
         children := (children st)(e := []),
         payload := (payload st)(e := pl),
         journal := journal st @ [ContentSet e pl] \<rparr>"

definition set_innerText :: "nat \<Rightarrow> string \<Rightarrow> page \<Rightarrow> page" where
  "set_innerText e s st = replace_inside e (if s = [] then Empty else Text s) st"

definition set_textContent :: "nat \<Rightarrow> string \<Rightarrow> page \<Rightarrow> page" where
  "set_textContent e s st = replace_inside e (if s = [] then Empty else Text s) st"

definition set_innerHTML :: "nat \<Rightarrow> string \<Rightarrow> page \<Rightarrow> page" where
  "set_innerHTML e s st = replace_inside e (if s = [] then Empty else Markup s) st"

subsection \<open>Promises and timers of the platform\<close>

definition new_promise :: "promise \<Rightarrow> page \<Rightarrow> nat \<times> page" where
  "new_promise x st =
     (length (promises st),
      st\<lparr> promises := promises st @ [x],
          journal := journal st @ [Promised (length (promises st))] \<rparr>)"

text \<open>\<open>Promise.resolve()\<close>: a promise that is fulfilled already.\<close>

definition Promise_resolve :: "page \<Rightarrow> nat \<times> page" where
  "Promise_resolve st = new_promise Fulfilled st"

text \<open>Calling the \<open>resolve\<close> function of promise \<open>p\<close>: a pending promise becomes
  fulfilled and its reactions are queued as microtasks; a settled one stays as it is.\<close>

definition resolve :: "nat \<Rightarrow> page \<Rightarrow> page" where
  "resolve p st =
     (if p < length (promises st) then
        (case promises st ! p of
           Pending rs \<Rightarrow> st\<lparr> promises := (promises st)[p := Fulfilled],
                            microtasks := microtasks st @ rs,
                            journal := journal st @ [Settled p] \<rparr>
         | Fulfilled \<Rightarrow> st)
      else st)"

text \<open>\<open>p.then(f)\<close>: a new pending promise \<open>q\<close> is returned; the reaction (which will run
  \<open>f\<close> and then resolve \<open>q\<close>) waits on \<open>p\<close> when \<open>p\<close> is pending and is queued as a
  microtask at once when \<open>p\<close> is fulfilled.\<close>

definition Promise_then :: "nat \<Rightarrow> (nat \<Rightarrow> reaction) \<Rightarrow> page \<Rightarrow> nat \<times> page" where
  "Promise_then p f st =
     (let (q, st1) = new_promise (Pending []) st in
      if p < length (promises st1) then
        (case promises st1 ! p of
           Pending rs \<Rightarrow> (q, st1\<lparr> promises := (promises st1)[p := Pending (rs @ [f q])],
                                 journal := journal st1 @ [Chained p q] \<rparr>)
         | Fulfilled \<Rightarrow> (q, st1\<lparr> microtasks := microtasks st1 @ [f q],
                                journal := journal st1 @ [Chained p q] \<rparr>))
      else (q, st1))"

text \<open>
  The delay of a timer is a 32-bit signed integer of the platform: the number passed is
  taken modulo \<open>2 ^ 32\<close> into the range from \<open>- 2 ^ 31\<close> to \<open>2 ^ 31 - 1\<close>, and a negative
  delay counts as 0.
\<close>

definition timer_delay :: "int \<Rightarrow> nat" where
  "timer_delay d = (let w = d mod 2 ^ 32 in if w < 2 ^ 31 then nat w else 0)"

text \<open>\<open>setTimeout(task, delay)\<close>: the task may run once the clock has reached
  \<open>now + timer_delay delay\<close>.\<close>

definition setTimeout :: "timer_task \<Rightarrow> int \<Rightarrow> page \<Rightarrow> page" where
  "setTimeout task delay st =
     st\<lparr> timers := timers st @ [(now st + timer_delay delay, task)],
         journal := journal st @ [Scheduled task (now st + timer_delay delay)] \<rparr>"

section \<open>dom/makeElement\<close>

definition makeElement ::
  "string \<Rightarrow> (string \<times> string) list \<Rightarrow> (nat \<Rightarrow> page \<Rightarrow> page) list \<Rightarrow> page \<Rightarrow> nat \<times> page" where
  "makeElement tag attrs initializers st =
     (let (element, st1) = createElement tag st;
          st2 = fold (\<lambda>(name, v). setAttribute element name v) attrs st1;
          st3 = fold (\<lambda>initializer. initializer element) initializers st2
      in (element, st3))"

section \<open>dom/isNested\<close>

text \<open>
  The loop of \<open>isNested\<close>, entered with the current \<open>walk\<close> (\<open>None\<close> is \<open>null\<close>). It
  follows parent pointers, so on a store whose parent pointers form a cycle it does not
  return: the result \<open>None\<close> of the option monad.
\<close>

partial_function (option) isNested_loop :: "(nat \<Rightarrow> nat option) \<Rightarrow> nat \<Rightarrow> nat option \<Rightarrow> bool option" where
  "isNested_loop par ancestor walk =
     (case walk of
        None \<Rightarrow> Some False
      | Some w \<Rightarrow>
          (let walk' = par w in
           if walk' = Some ancestor then Some True
           else isNested_loop par ancestor walk'))"

declare isNested_loop.simps [code]

definition isNested :: "page \<Rightarrow> nat \<Rightarrow> nat \<Rightarrow> bool option" where
  "isNested st descendant ancestor = isNested_loop (parentNode st) ancestor (Some descendant)"

section \<open>ModalRegion\<close>

text \<open>The initializer of the region's element:
  \<open>e => document.body.insertBefore(e, document.body.firstChild)\<close>.\<close>

definition insert_at_top :: "nat \<Rightarrow> page \<Rightarrow> page" where
  "insert_at_top e st = insertBefore (body st) e (firstChild st (body st)) st"

text \<open>\<open>new ModalRegion()\<close>: the object is allocated, the field initializer builds and
  inserts the element, the constructor publishes the region on \<open>window\<close>.\<close>

definition ModalRegion_new :: "page \<Rightarrow> nat \<times> page" where
  "ModalRegion_new st =
     (let r = nextRegion st;
          st0 = st\<lparr> nextRegion := Suc r \<rparr>;
          (e, st1) = makeElement ''div'' [(''data-modal-region'', '''')] [insert_at_top] st0;
          st2 = st1\<lparr> region_element := (region_element st1)(r := e) \<rparr>;
          st3 = st2\<lparr> window_modalRegion := Some r \<rparr>
      in (r, st3))"

text \<open>The getter \<open>modals\<close>: the \<open>modal\<close> property of every child of the element, in
  order (\<open>None\<close> is \<open>undefined\<close>).\<close>

definition ModalRegion_modals :: "page \<Rightarrow> nat \<Rightarrow> nat option list" where
  "ModalRegion_modals st r = map (modal st) (children st (region_element st r))"

section \<open>Modal\<close>

record ModalOptions =
  textContent :: "string option"
  innerHTML :: "string option"
  closeOnCoverClick :: "bool option"
  animationTime :: "int option"
  fadeTime :: "int option"

text \<open>The options record as an object: a field is \<open>None\<close> when the key is absent.
  \<open>fadeTime\<close> is not declared by the interface \<open>ModalOptions\<close>, but the constructor
  asks whether the key is there, so the model carries it.\<close>

definition no_options :: ModalOptions where
  "no_options = \<lparr> textContent = None, innerHTML = None, closeOnCoverClick = None,
                  animationTime = None, fadeTime = None \<rparr>"

datatype error = ConfigurationError

fun string_of_nat :: "nat \<Rightarrow> string" where
  "string_of_nat n =
     (if n < 10 then [char_of (48 + n)]
      else string_of_nat (n div 10) @ [char_of (48 + n mod 10)])"

declare string_of_nat.simps [simp del]

text \<open>\<open>this.animationTime > 0\<close>, where the field may be \<open>undefined\<close>.\<close>

definition positive :: "int option \<Rightarrow> bool" where
  "positive a = (case a of None \<Rightarrow> False | Some t \<Rightarrow> 0 < t)"

definition appear :: "nat \<Rightarrow> page \<Rightarrow> nat \<times> page" where
  "appear m st =
     (if positive (modal_animationTime st m) then
        (let cov = modal_cover st m;
             st1 = st\<lparr> style_opacity := (style_opacity st)(cov := Some ''0''),
                       journal := journal st @ [OpacitySet cov ''0''] \<rparr>;
             tr = ''opacity '' @ string_of_nat (nat (the (modal_animationTime st1 m)))
                    @ ''ms ease'';
             st2 = st1\<lparr> style_transition := (style_transition st1)(cov := Some tr),
                        journal := journal st1 @ [TransitionSet cov tr] \<rparr>;
             (p, st3) = new_promise (Pending []) st2;
             st4 = setTimeout (AppearTick m p) 0 st3
         in (p, st4))
      else Promise_resolve st)"

definition disappear :: "nat \<Rightarrow> page \<Rightarrow> nat \<times> page" where
  "disappear m st =
     (if positive (modal_animationTime st m) then
        (let cov = modal_cover st m;
             st1 = st\<lparr> style_opacity := (style_opacity st)(cov := Some ''0''),
                       journal := journal st @ [OpacitySet cov ''0''] \<rparr>;
             (p, st2) = new_promise (Pending []) st1;
             st3 = setTimeout (DisappearTick p) (the (modal_animationTime st2 m)) st2
         in (p, st3))
      else Promise_resolve st)"

definition close :: "nat \<Rightarrow> page \<Rightarrow> nat \<times> page" where
  "close m st =
     (let (p, st1) = disappear m st in
      Promise_then p (CloseThen m) st1)"

text \<open>The closures, run by the event loop.\<close>

fun run_timer :: "timer_task \<Rightarrow> page \<Rightarrow> page" where
  "run_timer (AppearTick m p) st =
     resolve p (st\<lparr> style_opacity := (style_opacity st)(modal_cover st m := Some ''1''),
                   journal := journal st @ [OpacitySet (modal_cover st m) ''1''] \<rparr>)"
| "run_timer (DisappearTick p) st = resolve p st"

fun run_reaction :: "reaction \<Rightarrow> page \<Rightarrow> page" where
  "run_reaction (CloseThen m q) st = resolve q (dom_remove (modal_cover st m) st)"

definition createContent :: "page \<Rightarrow> nat \<times> page" where
  "createContent st = makeElement ''div'' [(''class'', ''modal-content modal-plate'')] [] st"

text \<open>The field initializer of \<open>region\<close>:
  \<open>window.modalRegion || (window.modalRegion = new ModalRegion())\<close>.\<close>

definition Modal_region :: "page \<Rightarrow> nat \<times> page" where
  "Modal_region st =
     (case window_modalRegion st of
        Some r \<Rightarrow> (r, st)
      | None \<Rightarrow> (let (r, st1) = ModalRegion_new st in (r, st1\<lparr> window_modalRegion := Some r \<rparr>)))"

text \<open>
  \<open>new Modal(options)\<close> up to the first statement of the constructor's body: the object is
  allocated (its \<open>animationTime\<close> is still \<open>undefined\<close>) and the field initializers run in
  the order of their declaration: \<open>region\<close>, \<open>cover\<close>, \<open>content\<close>.
\<close>

definition Modal_fields :: "page \<Rightarrow> nat \<times> page" where
  "Modal_fields st =
     (let m = nextModal st;
          st0 = st\<lparr> nextModal := Suc m,
                    modal_animationTime := (modal_animationTime st)(m := None) \<rparr>;
          (r, st1) = Modal_region st0;
          st2 = st1\<lparr> modal_region := (modal_region st1)(m := r) \<rparr>;
          (cov, st3) = makeElement ''div'' [(''class'', ''modal-cover'')]
                         [\<lambda>e s. s\<lparr> modal := (modal s)(e := Some m) \<rparr>] st2;
          st4 = st3\<lparr> modal_cover := (modal_cover st3)(m := cov) \<rparr>;
          (con, st5) = createContent st4;
          st6 = st5\<lparr> modal_content := (modal_content st5)(m := con) \<rparr>
      in (m, st6))"

text \<open>The statements of the constructor's body, in their order.\<close>

text \<open>\<open>if (options.textContent !== undefined) { innerText = ...; textContent = ... }\<close>\<close>

definition assign_textContent :: "nat \<Rightarrow> ModalOptions \<Rightarrow> page \<Rightarrow> page" where
  "assign_textContent m options st =
     (case textContent options of
        Some t \<Rightarrow> set_textContent (modal_content st m) t (set_innerText (modal_content st m) t st)
      | None \<Rightarrow> st)"

text \<open>\<open>if (options.innerHTML) { innerHTML = ... }\<close>: an absent key and the empty string
  are both falsy.\<close>

definition assign_innerHTML :: "nat \<Rightarrow> ModalOptions \<Rightarrow> page \<Rightarrow> page" where
  "assign_innerHTML m options st =
     (case innerHTML options of
        Some h \<Rightarrow> if h \<noteq> [] then set_innerHTML (modal_content st m) h st else st
      | None \<Rightarrow> st)"

text \<open>\<open>this.cover.appendChild(this.content)\<close>\<close>

definition place_content :: "nat \<Rightarrow> page \<Rightarrow> page" where
  "place_content m st = appendChild (modal_cover st m) (modal_content st m) st"

text \<open>\<open>if (closeOnCoverClick !== undefined ? closeOnCoverClick : true) cover.onclick = ...\<close>\<close>

definition establish_onclick :: "nat \<Rightarrow> ModalOptions \<Rightarrow> page \<Rightarrow> page" where
  "establish_onclick m options st =
     (if (case closeOnCoverClick options of Some b \<Rightarrow> b | None \<Rightarrow> True)
      then st\<lparr> onclick := (onclick st)(modal_cover st m := Some (CoverClick m)),
              journal := journal st @ [HandlerSet (modal_cover st m) (CoverClick m)] \<rparr>
      else st)"

text \<open>\<open>this.animationTime = ("fadeTime" in options) ? options.animationTime : 250\<close>\<close>

definition default_animationTime :: "nat \<Rightarrow> ModalOptions \<Rightarrow> page \<Rightarrow> page" where
  "default_animationTime m options st =
     st\<lparr> modal_animationTime := (modal_animationTime st)(m :=
           (if fadeTime options \<noteq> None then animationTime options else Some 250)) \<rparr>"

text \<open>\<open>this.region.element.appendChild(this.cover)\<close>\<close>

definition push_into_region :: "nat \<Rightarrow> page \<Rightarrow> page" where
  "push_into_region m st =
     appendChild (region_element st (modal_region st m)) (modal_cover st m) st"

text \<open>The body: the check of the options, then the statements; the promise that
  \<open>appear\<close> returns is dropped.\<close>

definition Modal_body :: "nat \<Rightarrow> ModalOptions \<Rightarrow> page \<Rightarrow> (error + nat) \<times> page" where
  "Modal_body m options st =
     (if innerHTML options \<noteq> None \<and> textContent options \<noteq> None then
        (Inl ConfigurationError, st)
      else
        (Inr m,
         push_into_region m
           (snd (appear m
              (default_animationTime m options
                 (establish_onclick m options
                    (place_content m
                       (assign_innerHTML m options
                          (assign_textContent m options st)))))))))"

definition Modal_constructor :: "ModalOptions \<Rightarrow> page \<Rightarrow> (error + nat) \<times> page" where
  "Modal_constructor options st =
     (let (m, st1) = Modal_fields st in Modal_body m options st1)"

text \<open>The handler installed on the cover, called with the event's target.\<close>

definition cover_onclick :: "nat \<Rightarrow> nat \<Rightarrow> page \<Rightarrow> page option" where
  "cover_onclick m target st =
     (if target = modal_content st m then Some st
      else (case isNested st target (modal_content st m) of
              None \<Rightarrow> None
            | Some True \<Rightarrow> Some st
            | Some False \<Rightarrow> Some (snd (close m st))))"

text \<open>A click event reaching the cover of modal \<open>m\<close> with the given target: the cover's
  \<open>onclick\<close> handler runs, when there is one.\<close>

definition click_cover :: "nat \<Rightarrow> nat \<Rightarrow> page \<Rightarrow> page option" where
  "click_cover m target st =
     (case onclick st (modal_cover st m) of
        None \<Rightarrow> Some st
      | Some (CoverClick m') \<Rightarrow> cover_onclick m' target st)"

section \<open>The event loop\<close>

text \<open>The microtask checkpoint: reactions run until the queue is empty.\<close>

definition waiting :: "promise \<Rightarrow> nat" where
  "waiting x = (case x of Pending rs \<Rightarrow> length rs | Fulfilled \<Rightarrow> 0)"

definition backlog :: "page \<Rightarrow> nat" where
  "backlog st = length (microtasks st) + sum_list (map waiting (promises st))"

lemma backlog_dom_remove: "backlog (dom_remove n st) = backlog st"
  by (simp add: backlog_def dom_remove_def split: option.splits)

lemma backlog_resolve: "backlog (resolve p st) = backlog st"
proof (cases "p < length (promises st)")
  case False
  then show ?thesis by (simp add: resolve_def)
next
  case True
  show ?thesis
  proof (cases "promises st ! p")
    case Fulfilled
    with True show ?thesis by (simp add: resolve_def)
  next
    case (Pending rs)
    let ?ws = "map waiting (promises st)"
    have at: "?ws ! p = length rs" using True Pending by (simp add: waiting_def)
    have le: "?ws ! p \<le> sum_list ?ws"
      using True by (intro elem_le_sum_list) simp
    have "sum_list (map waiting ((promises st)[p := Fulfilled])) = sum_list (?ws[p := 0])"
      by (simp add: map_update waiting_def)
    also have "\<dots> = sum_list ?ws + 0 - ?ws ! p"
      using True by (subst sum_list_update) simp_all
    finally show ?thesis
      using True Pending at le by (simp add: resolve_def backlog_def)
  qed
qed

function drain :: "page \<Rightarrow> page" where
  "drain st =
     (case microtasks st of
        [] \<Rightarrow> st
      | t # ts \<Rightarrow> drain (run_reaction t (st\<lparr> microtasks := ts \<rparr>)))"
  by pat_completeness auto
termination
proof (relation "measure backlog")
  show "wf (measure backlog)" by simp
next
  fix st :: page and t ts
  assume q: "microtasks st = t # ts"
  obtain m p where t: "t = CloseThen m p" by (cases t)
  have "backlog (run_reaction t (st\<lparr> microtasks := ts \<rparr>)) = backlog (st\<lparr> microtasks := ts \<rparr>)"
    by (simp add: t backlog_resolve backlog_dom_remove)
  also have "\<dots> < backlog st" using q by (simp add: backlog_def)
  finally show "(run_reaction t (st\<lparr> microtasks := ts \<rparr>), st) \<in> measure backlog" by simp
qed

declare drain.simps [simp del]

text \<open>A timer fires: the microtask queue is emptied first (a task only starts after the
  checkpoint of the one before), then the \<open>k\<close>-th scheduled timer runs if the clock has
  reached its time, and its microtasks follow. Which of the timers that are due fires
  first is left to the caller.\<close>

definition fire :: "nat \<Rightarrow> page \<Rightarrow> page" where
  "fire k st =
     (let st0 = drain st in
      if k < length (timers st0) \<and> fst (timers st0 ! k) \<le> now st0 then
        drain (run_timer (snd (timers st0 ! k))
                 (st0\<lparr> timers := take k (timers st0) @ drop (Suc k) (timers st0) \<rparr>))
      else st0)"

text \<open>
  What can happen on the page: script constructs a modal, script calls \<open>close\<close> on a modal,
  a click reaches a cover, time passes, the running script ends (microtask checkpoint),
  a timer fires. Script can only name a modal that has been allocated and a node that
  exists.
\<close>

datatype event = New ModalOptions | Close nat | Click nat nat | Tick nat | Checkpoint | Fire nat

fun step :: "event \<Rightarrow> page \<Rightarrow> page option" where
  "step (New options) st = Some (snd (Modal_constructor options st))"
| "step (Close m) st = (if m < nextModal st then Some (snd (close m st)) else Some st)"
| "step (Click m target) st =
     (if m < nextModal st \<and> target < nextNode st then click_cover m target st else Some st)"
| "step (Tick dt) st = Some (st\<lparr> now := now st + dt \<rparr>)"
| "step Checkpoint st = Some (drain st)"
| "step (Fire k) st = Some (fire k st)"

fun exec :: "event list \<Rightarrow> page \<Rightarrow> page option" where
  "exec [] st = Some st"
| "exec (e # es) st = (case step e st of None \<Rightarrow> None | Some st' \<Rightarrow> exec es st')"

section \<open>Effects of the operations\<close>

lemmas element_defs = makeElement_def createElement_def setAttribute_def createContent_def

lemma insert_first_child:
  "(case (case cs of [] \<Rightarrow> None | c # x \<Rightarrow> Some c) of
      None \<Rightarrow> cs @ [e]
    | Some r \<Rightarrow> takeWhile (\<lambda>x. x \<noteq> r) cs @ [e] @ dropWhile (\<lambda>x. x \<noteq> r) cs) = e # cs"
  by (cases cs) auto

lemma insert_at_top_fresh:
  "parentNode st e = None \<Longrightarrow>
   insert_at_top e st =
     st\<lparr> children := (children st)(body st := e # children st (body st)),
         parentNode := (parentNode st)(e := Some (body st)),
         journal := journal st @ [Inserted (body st) e] \<rparr>"
  by (simp add: insert_at_top_def insertBefore_def dom_remove_def firstChild_def Let_def
      insert_first_child)

section \<open>Invariants of the page\<close>

fun reactions_of :: "promise \<Rightarrow> reaction list" where
  "reactions_of (Pending rs) = rs"
| "reactions_of Fulfilled = []"

definition all_reactions :: "page \<Rightarrow> reaction list" where
  "all_reactions st = microtasks st @ concat (map reactions_of (promises st))"

fun reaction_modal :: "reaction \<Rightarrow> nat" where
  "reaction_modal (CloseThen m q) = m"

fun reaction_promise :: "reaction \<Rightarrow> nat" where
  "reaction_promise (CloseThen m q) = q"

fun timer_promise :: "timer_task \<Rightarrow> nat" where
  "timer_promise (AppearTick m p) = p"
| "timer_promise (DisappearTick p) = p"

text \<open>The cover of modal \<open>m\<close> is a child of the element \<open>el\<close>.\<close>

definition attached :: "page \<Rightarrow> nat \<Rightarrow> nat \<Rightarrow> bool" where
  "attached st el m \<longleftrightarrow> parentNode st (modal_cover st m) = Some el"

text \<open>The covers of the modals attached to \<open>el\<close>, in the order of their construction.\<close>

definition covers_in :: "page \<Rightarrow> nat \<Rightarrow> nat list" where
  "covers_in st el = map (modal_cover st) (filter (attached st el) [0 ..< nextModal st])"

definition modal_inv :: "page \<Rightarrow> nat \<Rightarrow> nat \<Rightarrow> bool" where
  "modal_inv st r m \<longleftrightarrow>
     modal_region st m = r \<and>
     region_element st r < modal_cover st m \<and>
     modal_content st m = Suc (modal_cover st m) \<and>
     modal_content st m < nextNode st \<and>
     modal st (modal_cover st m) = Some m \<and>
     modal st (modal_content st m) = None \<and>
     (parentNode st (modal_cover st m) = None \<or>
      parentNode st (modal_cover st m) = Some (region_element st r)) \<and>
     (onclick st (modal_cover st m) = None \<or>
      onclick st (modal_cover st m) = Some (CoverClick m))"

definition region_inv :: "page \<Rightarrow> nat \<Rightarrow> bool" where
  "region_inv st r \<longleftrightarrow>
     r = 0 \<and> nextRegion st = 1 \<and>
     body st < region_element st r \<and>
     region_element st r < nextNode st \<and>
     parentNode st (region_element st r) = Some (body st) \<and>
     firstChild st (body st) = Some (region_element st r) \<and>
     children st (region_element st r) = covers_in st (region_element st r) \<and>
     (\<forall>m < nextModal st. modal_inv st r m)"

definition tasks_inv :: "page \<Rightarrow> bool" where
  "tasks_inv st \<longleftrightarrow>
     (\<forall>x \<in> set (all_reactions st).
        reaction_modal x < nextModal st \<and> reaction_promise x < length (promises st)) \<and>
     (\<forall>x \<in> set (timers st). timer_promise (snd x) < length (promises st))"

definition page_inv :: "page \<Rightarrow> bool" where
  "page_inv st \<longleftrightarrow>
     body st < nextNode st \<and>
     (\<forall>n p. parentNode st n = Some p \<longrightarrow> p < n) \<and>
     (case window_modalRegion st of
        None \<Rightarrow> nextModal st = 0 \<and> nextRegion st = 0
      | Some r \<Rightarrow> region_inv st r) \<and>
     tasks_inv st"

text \<open>Inside the constructor: modal \<open>m\<close> is the newest one, its cover and content are
  created and still loose.\<close>

definition staged :: "page \<Rightarrow> nat \<Rightarrow> bool" where
  "staged st m \<longleftrightarrow>
     page_inv st \<and> nextModal st = Suc m \<and>
     parentNode st (modal_cover st m) = None \<and>
     parentNode st (modal_content st m) = None \<and>
     children st (modal_content st m) = []"

definition placed :: "page \<Rightarrow> nat \<Rightarrow> bool" where
  "placed st m \<longleftrightarrow>
     page_inv st \<and> nextModal st = Suc m \<and> parentNode st (modal_cover st m) = None"

lemma page_inv_initial: "page_inv (initial_page k)"
  by (simp add: page_inv_def initial_page_def tasks_inv_def all_reactions_def)

subsection \<open>Lists of attached covers\<close>

lemma covers_in_cong:
  assumes "nextModal st' = nextModal st"
    and "\<And>y. y < nextModal st \<Longrightarrow> modal_cover st' y = modal_cover st y"
    and "\<And>y. y < nextModal st \<Longrightarrow>
           (parentNode st' (modal_cover st y) = Some el') = (parentNode st (modal_cover st y) = Some el)"
  shows "covers_in st' el' = covers_in st el"
proof -
  have "filter (attached st' el') [0 ..< nextModal st] = filter (attached st el) [0 ..< nextModal st]"
    using assms(2,3) by (intro filter_cong) (simp_all add: attached_def)
  moreover have "map (modal_cover st') (filter (attached st el) [0 ..< nextModal st])
      = map (modal_cover st) (filter (attached st el) [0 ..< nextModal st])"
    using assms(2) by (intro map_cong) simp_all
  ultimately show ?thesis by (simp add: covers_in_def assms(1))
qed

lemma covers_in_new_loose:
  assumes "nextModal st' = Suc (nextModal st)"
    and "\<And>y. y < nextModal st \<Longrightarrow> modal_cover st' y = modal_cover st y"
    and "\<And>y. y < nextModal st \<Longrightarrow>
           (parentNode st' (modal_cover st y) = Some el') = (parentNode st (modal_cover st y) = Some el)"
    and "parentNode st' (modal_cover st' (nextModal st)) \<noteq> Some el'"
  shows "covers_in st' el' = covers_in st el"
proof -
  have "filter (attached st' el') [0 ..< nextModal st] = filter (attached st el) [0 ..< nextModal st]"
    using assms(2,3) by (intro filter_cong) (simp_all add: attached_def)
  moreover have "map (modal_cover st') (filter (attached st el) [0 ..< nextModal st])
      = map (modal_cover st) (filter (attached st el) [0 ..< nextModal st])"
    using assms(2) by (intro map_cong) simp_all
  moreover have "\<not> attached st' el' (nextModal st)"
    using assms(4) by (simp add: attached_def)
  ultimately show ?thesis by (simp add: covers_in_def assms(1))
qed

lemma covers_in_push:
  assumes "nextModal st' = Suc m" and "nextModal st = Suc m"
    and "\<And>y. y \<le> m \<Longrightarrow> modal_cover st' y = modal_cover st y"
    and "\<And>y. y < m \<Longrightarrow>
           (parentNode st' (modal_cover st y) = Some el) = (parentNode st (modal_cover st y) = Some el)"
    and "parentNode st (modal_cover st m) \<noteq> Some el"
    and "parentNode st' (modal_cover st m) = Some el"
  shows "covers_in st' el = covers_in st el @ [modal_cover st m]"
proof -
  have "filter (attached st' el) [0 ..< m] = filter (attached st el) [0 ..< m]"
    using assms(3,4) by (intro filter_cong) (simp_all add: attached_def)
  moreover have "map (modal_cover st') (filter (attached st el) [0 ..< m])
      = map (modal_cover st) (filter (attached st el) [0 ..< m])"
    using assms(3) by (intro map_cong) simp_all
  moreover have "\<not> attached st el m" "attached st' el m"
    using assms(3,5,6) by (simp_all add: attached_def)
  ultimately show ?thesis by (simp add: covers_in_def assms(1,2,3))
qed

lemma remove1_map_filter:
  assumes "inj_on f (set xs)" and "distinct xs" and "x \<in> set xs"
  shows "remove1 (f x) (map f (filter P xs)) = map f (filter (\<lambda>y. P y \<and> y \<noteq> x) xs)"
  using assms
proof (induction xs)
  case Nil
  then show ?case by simp
next
  case (Cons a xs)
  show ?case
  proof (cases "a = x")
    case True
    then have "x \<notin> set xs" using Cons.prems by simp
    then have eq: "filter (\<lambda>y. P y \<and> y \<noteq> x) xs = filter P xs"
      by (intro filter_cong) auto
    have "f x \<notin> f ` set xs" using Cons.prems True by (auto simp: inj_on_def)
    then have "f x \<notin> set (map f (filter P xs))" by auto
    then show ?thesis using True eq by (simp add: remove1_idem)
  next
    case False
    then have mem: "x \<in> set xs" using Cons.prems(3) by simp
    have ne: "f a \<noteq> f x" using Cons.prems(1,3) False by (auto simp: inj_on_def)
    have "inj_on f (set xs)" using Cons.prems(1) by (rule inj_on_subset) auto
    moreover have "distinct xs" using Cons.prems(2) by simp
    ultimately have "remove1 (f x) (map f (filter P xs)) = map f (filter (\<lambda>y. P y \<and> y \<noteq> x) xs)"
      using mem by (rule Cons.IH)
    then show ?thesis using False ne by simp
  qed
qed

lemma covers_in_remove:
  assumes "nextModal st' = nextModal st" and "m < nextModal st"
    and "\<And>y. y < nextModal st \<Longrightarrow> modal_cover st' y = modal_cover st y"
    and "\<And>y. y < nextModal st \<Longrightarrow> modal st (modal_cover st y) = Some y"
    and "\<And>y. y < nextModal st \<Longrightarrow> y \<noteq> m \<Longrightarrow>
           (parentNode st' (modal_cover st y) = Some el) = (parentNode st (modal_cover st y) = Some el)"
    and "parentNode st' (modal_cover st m) \<noteq> Some el"
  shows "covers_in st' el = remove1 (modal_cover st m) (covers_in st el)"
proof -
  have inj: "inj_on (modal_cover st) (set [0 ..< nextModal st])"
  proof (rule inj_onI)
    fix a b assume "a \<in> set [0 ..< nextModal st]" "b \<in> set [0 ..< nextModal st]"
      "modal_cover st a = modal_cover st b"
    then have "a < nextModal st" "b < nextModal st"
      and eq: "modal st (modal_cover st a) = modal st (modal_cover st b)" by simp_all
    then have "modal st (modal_cover st a) = Some a" "modal st (modal_cover st b) = Some b"
      by (simp_all only: assms(4))
    with eq show "a = b" by (metis option.inject)
  qed
  have "filter (attached st' el) [0 ..< nextModal st]
      = filter (\<lambda>y. attached st el y \<and> y \<noteq> m) [0 ..< nextModal st]"
    using assms(3,5,6) by (intro filter_cong) (auto simp: attached_def)
  moreover have "map (modal_cover st') (filter (\<lambda>y. attached st el y \<and> y \<noteq> m) [0 ..< nextModal st])
      = map (modal_cover st) (filter (\<lambda>y. attached st el y \<and> y \<noteq> m) [0 ..< nextModal st])"
    using assms(3) by (intro map_cong) simp_all
  moreover have "remove1 (modal_cover st m) (map (modal_cover st) (filter (attached st el) [0 ..< nextModal st]))
      = map (modal_cover st) (filter (\<lambda>y. attached st el y \<and> y \<noteq> m) [0 ..< nextModal st])"
    using inj assms(2) by (intro remove1_map_filter) simp_all
  ultimately show ?thesis by (simp add: covers_in_def assms(1))
qed

subsection \<open>Reading the invariants\<close>

lemma modal_invD:
  assumes "modal_inv st r m"
  shows "modal_region st m = r"
    and "region_element st r < modal_cover st m"
    and "modal_content st m = Suc (modal_cover st m)"
    and "Suc (modal_cover st m) < nextNode st"
    and "modal st (modal_cover st m) = Some m"
    and "modal st (Suc (modal_cover st m)) = None"
    and "parentNode st (modal_cover st m) = None \<or>
         parentNode st (modal_cover st m) = Some (region_element st r)"
    and "onclick st (modal_cover st m) = None \<or>
         onclick st (modal_cover st m) = Some (CoverClick m)"
  using assms by (auto simp: modal_inv_def)

lemma region_invD:
  assumes "region_inv st r"
  shows "r = 0"
    and "nextRegion st = 1"
    and "body st < region_element st r"
    and "region_element st r < nextNode st"
    and "parentNode st (region_element st r) = Some (body st)"
    and "firstChild st (body st) = Some (region_element st r)"
    and "children st (region_element st r) = covers_in st (region_element st r)"
    and "\<And>m. m < nextModal st \<Longrightarrow> modal_inv st r m"
  using assms by (auto simp: region_inv_def)

lemma page_invD:
  assumes "page_inv st"
  shows "body st < nextNode st"
    and "\<And>n p. parentNode st n = Some p \<Longrightarrow> p < n"
    and "tasks_inv st"
    and "\<And>r. window_modalRegion st = Some r \<Longrightarrow> region_inv st r"
    and "window_modalRegion st = None \<Longrightarrow> nextModal st = 0 \<and> nextRegion st = 0"
  using assms by (auto simp: page_inv_def)

lemma tasks_invI:
  assumes "tasks_inv st"
    and "set (all_reactions st') \<subseteq> set (all_reactions st) \<union> R"
    and "set (timers st') \<subseteq> set (timers st) \<union> T"
    and "nextModal st \<le> nextModal st'"
    and "length (promises st) \<le> length (promises st')"
    and "\<And>x. x \<in> R \<Longrightarrow>
           reaction_modal x < nextModal st' \<and> reaction_promise x < length (promises st')"
    and "\<And>x. x \<in> T \<Longrightarrow> timer_promise (snd x) < length (promises st')"
  shows "tasks_inv st'"
  unfolding tasks_inv_def
proof (intro conjI ballI)
  fix x assume "x \<in> set (all_reactions st')"
  then consider "x \<in> set (all_reactions st)" | "x \<in> R" using assms(2) by blast
  then show "reaction_modal x < nextModal st'"
  proof cases
    case 1
    then have "reaction_modal x < nextModal st" using assms(1) by (simp add: tasks_inv_def)
    then show ?thesis using assms(4) by simp
  next
    case 2
    then show ?thesis using assms(6) by simp
  qed
next
  fix x assume "x \<in> set (all_reactions st')"
  then consider "x \<in> set (all_reactions st)" | "x \<in> R" using assms(2) by blast
  then show "reaction_promise x < length (promises st')"
  proof cases
    case 1
    then have "reaction_promise x < length (promises st)"
      using assms(1) by (simp add: tasks_inv_def)
    then show ?thesis using assms(5) by simp
  next
    case 2
    then show ?thesis using assms(6) by simp
  qed
next
  fix x assume "x \<in> set (timers st')"
  then consider "x \<in> set (timers st)" | "x \<in> T" using assms(3) by blast
  then show "timer_promise (snd x) < length (promises st')"
  proof cases
    case 1
    then have "timer_promise (snd x) < length (promises st)"
      using assms(1) by (simp add: tasks_inv_def)
    then show ?thesis using assms(5) by simp
  next
    case 2
    then show ?thesis using assms(7) by simp
  qed
qed

subsection \<open>The field initializers\<close>

lemma Modal_fields_fst: "fst (Modal_fields st) = nextModal st"
  by (simp add: Modal_fields_def Let_def split_def)

lemma Modal_fields_Some:
  "window_modalRegion st = Some r \<Longrightarrow>
   snd (Modal_fields st) =
     st\<lparr> nextModal := Suc (nextModal st),
         modal_animationTime := (modal_animationTime st)(nextModal st := None),
         modal_region := (modal_region st)(nextModal st := r),
         modal_cover := (modal_cover st)(nextModal st := nextNode st),
         modal_content := (modal_content st)(nextModal st := Suc (nextNode st)),
         nextNode := Suc (Suc (nextNode st)),
         tagName := (tagName st)(nextNode st := ''div'', Suc (nextNode st) := ''div''),
         attributes := (attributes st)(nextNode st := [(''class'', ''modal-cover'')],
            Suc (nextNode st) := [(''class'', ''modal-content modal-plate'')]),
         parentNode := (parentNode st)(nextNode st := None, Suc (nextNode st) := None),
         children := (children st)(nextNode st := [], Suc (nextNode st) := []),
         modal := (modal st)(nextNode st := Some (nextModal st), Suc (nextNode st) := None),
         payload := (payload st)(nextNode st := Empty, Suc (nextNode st) := Empty),
         style_opacity := (style_opacity st)(nextNode st := None, Suc (nextNode st) := None),
         style_transition := (style_transition st)(nextNode st := None, Suc (nextNode st) := None),
         onclick := (onclick st)(nextNode st := None, Suc (nextNode st) := None),
         journal := journal st @
           [Created (nextNode st), AttributeSet (nextNode st) ''class'' ''modal-cover'',
            Created (Suc (nextNode st)),
            AttributeSet (Suc (nextNode st)) ''class'' ''modal-content modal-plate''] \<rparr>"
  by (simp add: Modal_fields_def Modal_region_def element_defs Let_def)

lemma Modal_fields_None:
  "window_modalRegion st = None \<Longrightarrow> body st < nextNode st \<Longrightarrow>
   snd (Modal_fields st) =
     st\<lparr> nextModal := Suc (nextModal st),
         modal_animationTime := (modal_animationTime st)(nextModal st := None),
         nextRegion := Suc (nextRegion st),
         region_element := (region_element st)(nextRegion st := nextNode st),
         window_modalRegion := Some (nextRegion st),
         modal_region := (modal_region st)(nextModal st := nextRegion st),
         modal_cover := (modal_cover st)(nextModal st := Suc (nextNode st)),
         modal_content := (modal_content st)(nextModal st := Suc (Suc (nextNode st))),
         nextNode := Suc (Suc (Suc (nextNode st))),
         tagName := (tagName st)(nextNode st := ''div'', Suc (nextNode st) := ''div'',
            Suc (Suc (nextNode st)) := ''div''),
         attributes := (attributes st)(nextNode st := [(''data-modal-region'', [])],
            Suc (nextNode st) := [(''class'', ''modal-cover'')],
            Suc (Suc (nextNode st)) := [(''class'', ''modal-content modal-plate'')]),
         parentNode := (parentNode st)(nextNode st := Some (body st), Suc (nextNode st) := None,
            Suc (Suc (nextNode st)) := None),
         children := (children st)(nextNode st := [],
            body st := nextNode st # children st (body st),
            Suc (nextNode st) := [], Suc (Suc (nextNode st)) := []),
         modal := (modal st)(nextNode st := None, Suc (nextNode st) := Some (nextModal st),
            Suc (Suc (nextNode st)) := None),
         payload := (payload st)(nextNode st := Empty, Suc (nextNode st) := Empty,
            Suc (Suc (nextNode st)) := Empty),
         style_opacity := (style_opacity st)(nextNode st := None, Suc (nextNode st) := None,
            Suc (Suc (nextNode st)) := None),
         style_transition := (style_transition st)(nextNode st := None,
            Suc (nextNode st) := None, Suc (Suc (nextNode st)) := None),
         onclick := (onclick st)(nextNode st := None, Suc (nextNode st) := None,
            Suc (Suc (nextNode st)) := None),
         journal := journal st @
           [Created (nextNode st), AttributeSet (nextNode st) ''data-modal-region'' [],
            Inserted (body st) (nextNode st),
            Created (Suc (nextNode st)), AttributeSet (Suc (nextNode st)) ''class'' ''modal-cover'',
            Created (Suc (Suc (nextNode st))),
            AttributeSet (Suc (Suc (nextNode st))) ''class'' ''modal-content modal-plate''] \<rparr>"
  by (simp add: Modal_fields_def Modal_region_def ModalRegion_new_def element_defs Let_def
      insert_at_top_fresh)

lemma Modal_fields_staged_Some:
  assumes inv: "page_inv st" and w: "window_modalRegion st = Some r"
  shows "staged (snd (Modal_fields st)) (nextModal st)"
proof -
  let ?st' = "snd (Modal_fields st)"
  let ?el = "region_element st r"
  note eq = Modal_fields_Some[OF w]
  note pd = page_invD[OF inv]
  note rd = region_invD[OF pd(4)[OF w]]
  note md = modal_invD[OF rd(8)]
  have cov: "covers_in ?st' ?el = covers_in st ?el"
  proof (rule covers_in_new_loose)
    show "nextModal ?st' = Suc (nextModal st)" by (simp add: eq)
    show "modal_cover ?st' y = modal_cover st y" if "y < nextModal st" for y
      using that by (simp add: eq)
    show "(parentNode ?st' (modal_cover st y) = Some ?el) = (parentNode st (modal_cover st y) = Some ?el)"
      if "y < nextModal st" for y
      using md(4)[OF that] by (simp add: eq)
    show "parentNode ?st' (modal_cover ?st' (nextModal st)) \<noteq> Some ?el" by (simp add: eq)
  qed
  have mi: "modal_inv ?st' r m" if "m < Suc (nextModal st)" for m
  proof (cases "m = nextModal st")
    case True
    then show ?thesis using rd(4) by (simp add: eq modal_inv_def)
  next
    case False
    with that have lt: "m < nextModal st" by simp
    from md[OF lt] lt show ?thesis by (simp add: eq modal_inv_def)
  qed
  have reg: "region_inv ?st' r"
    unfolding region_inv_def
  proof (intro conjI allI impI)
    show "r = 0" "nextRegion ?st' = 1" using rd(1,2) by (simp_all add: eq)
    show "body ?st' < region_element ?st' r" using rd(3) by (simp add: eq)
    show "region_element ?st' r < nextNode ?st'" using rd(4) by (simp add: eq)
    show "parentNode ?st' (region_element ?st' r) = Some (body ?st')"
      using rd(4,5) by (simp add: eq)
    show "firstChild ?st' (body ?st') = Some (region_element ?st' r)"
      using rd(6) pd(1) by (simp add: eq firstChild_def)
    show "children ?st' (region_element ?st' r) = covers_in ?st' (region_element ?st' r)"
      using rd(4,7) cov by (simp add: eq)
    show "modal_inv ?st' r m" if "m < nextModal ?st'" for m
      using that mi by (simp add: eq)
  qed
  have tasks: "tasks_inv ?st'"
    by (rule tasks_invI[OF pd(3), where R = "{}" and T = "{}"])
       (simp_all add: eq all_reactions_def)
  have "page_inv ?st'"
    unfolding page_inv_def
  proof (intro conjI allI impI)
    show "body ?st' < nextNode ?st'" using pd(1) by (simp add: eq)
    show "p < n" if "parentNode ?st' n = Some p" for n p
      using that pd(2)[of n p] by (simp add: eq split: if_splits)
    show "case window_modalRegion ?st' of None \<Rightarrow> nextModal ?st' = 0 \<and> nextRegion ?st' = 0
          | Some r \<Rightarrow> region_inv ?st' r"
      using reg w by (simp add: eq)
    show "tasks_inv ?st'" by (rule tasks)
  qed
  then show ?thesis by (simp add: staged_def) (simp add: eq)
qed

lemma Modal_fields_staged_None:
  assumes inv: "page_inv st" and w: "window_modalRegion st = None"
  shows "staged (snd (Modal_fields st)) (nextModal st)"
proof -
  let ?st' = "snd (Modal_fields st)"
  note pd = page_invD[OF inv]
  note eq = Modal_fields_None[OF w pd(1)]
  from pd(5)[OF w] have z: "nextModal st = 0" "nextRegion st = 0" by simp_all
  have cov: "covers_in ?st' (nextNode st) = []"
    by (simp add: covers_in_def attached_def eq z)
  have reg: "region_inv ?st' 0"
    unfolding region_inv_def
  proof (intro conjI allI impI)
    show "(0::nat) = 0" by simp
    show "nextRegion ?st' = 1" by (simp add: eq z)
    show "body ?st' < region_element ?st' 0" using pd(1) by (simp add: eq z)
    show "region_element ?st' 0 < nextNode ?st'" by (simp add: eq z)
    show "parentNode ?st' (region_element ?st' 0) = Some (body ?st')" by (simp add: eq z)
    show "firstChild ?st' (body ?st') = Some (region_element ?st' 0)"
      using pd(1) by (simp add: eq z firstChild_def)
    show "children ?st' (region_element ?st' 0) = covers_in ?st' (region_element ?st' 0)"
      using pd(1) cov by (simp add: eq z)
    show "modal_inv ?st' 0 m" if "m < nextModal ?st'" for m
      using that by (simp add: eq z modal_inv_def)
  qed
  have tasks: "tasks_inv ?st'"
    by (rule tasks_invI[OF pd(3), where R = "{}" and T = "{}"])
       (simp_all add: eq all_reactions_def)
  have "page_inv ?st'"
    unfolding page_inv_def
  proof (intro conjI allI impI)
    show "body ?st' < nextNode ?st'" using pd(1) by (simp add: eq)
    show "p < n" if "parentNode ?st' n = Some p" for n p
      using that pd(1) pd(2)[of n p] by (simp add: eq split: if_splits)
    show "case window_modalRegion ?st' of None \<Rightarrow> nextModal ?st' = 0 \<and> nextRegion ?st' = 0
          | Some r \<Rightarrow> region_inv ?st' r"
      using reg by (simp add: eq z)
    show "tasks_inv ?st'" by (rule tasks)
  qed
  then show ?thesis by (simp add: staged_def) (simp add: eq z)
qed

lemma Modal_fields_staged:
  "page_inv st \<Longrightarrow> staged (snd (Modal_fields st)) (nextModal st)"
  by (cases "window_modalRegion st") (simp_all add: Modal_fields_staged_None Modal_fields_staged_Some)

subsection \<open>The statements of the constructor\<close>

lemma replace_inside_empty:
  "children st e = [] \<Longrightarrow>
   replace_inside e pl st =
     st\<lparr> payload := (payload st)(e := pl), journal := journal st @ [ContentSet e pl] \<rparr>"
  by (simp add: replace_inside_def fun_upd_idem)

lemma appendChild_loose:
  "parentNode st c = None \<Longrightarrow>
   appendChild p c st =
     st\<lparr> children := (children st)(p := children st p @ [c]),
         parentNode := (parentNode st)(c := Some p),
         journal := journal st @ [Inserted p c] \<rparr>"
  by (simp add: appendChild_def dom_remove_def)

lemma assign_textContent_eq:
  "children st (modal_content st m) = [] \<Longrightarrow>
   assign_textContent m opts st =
     (case textContent opts of
        None \<Rightarrow> st
      | Some t \<Rightarrow> st\<lparr> payload := (payload st)(modal_content st m :=
                         (if t = [] then Empty else Text t)),
                       journal := journal st @
                         [ContentSet (modal_content st m) (if t = [] then Empty else Text t),
                          ContentSet (modal_content st m) (if t = [] then Empty else Text t)] \<rparr>)"
  by (simp add: assign_textContent_def set_textContent_def set_innerText_def
      replace_inside_empty split: option.splits)

lemma assign_innerHTML_eq:
  "children st (modal_content st m) = [] \<Longrightarrow>
   assign_innerHTML m opts st =
     (case innerHTML opts of
        None \<Rightarrow> st
      | Some h \<Rightarrow> if h \<noteq> []
                  then st\<lparr> payload := (payload st)(modal_content st m := Markup h),
                          journal := journal st @ [ContentSet (modal_content st m) (Markup h)] \<rparr>
                  else st)"
  by (simp add: assign_innerHTML_def set_innerHTML_def replace_inside_empty split: option.splits)

text \<open>A change of fields that the invariants do not read.\<close>

lemma page_inv_cong:
  assumes "page_inv st"
    and "nextNode st' = nextNode st" "parentNode st' = parentNode st"
    and "children st' = children st" "modal st' = modal st"
    and "body st' = body st" "window_modalRegion st' = window_modalRegion st"
    and "nextRegion st' = nextRegion st" "region_element st' = region_element st"
    and "nextModal st' = nextModal st" "modal_region st' = modal_region st"
    and "modal_cover st' = modal_cover st" "modal_content st' = modal_content st"
    and "timers st' = timers st" "microtasks st' = microtasks st" "promises st' = promises st"
    and "onclick st' = onclick st"
  shows "page_inv st'"
proof -
  have "page_inv st' = page_inv st"
    unfolding page_inv_def region_inv_def modal_inv_def tasks_inv_def
      all_reactions_def covers_in_def attached_def firstChild_def
    by (simp only: assms(2-))
  then show ?thesis using assms(1) by simp
qed

lemma staged_assign_textContent:
  assumes "staged st m"
  shows "staged (assign_textContent m opts st) m"
proof -
  from assms have e: "children st (modal_content st m) = []" by (simp add: staged_def)
  have "page_inv (assign_textContent m opts st)"
    by (rule page_inv_cong[of st]) (use assms in \<open>simp_all add: assign_textContent_eq[OF e] staged_def split: option.splits\<close>)
  then show ?thesis using assms by (simp add: staged_def assign_textContent_eq[OF e] split: option.splits)
qed

lemma staged_assign_innerHTML:
  assumes "staged st m"
  shows "staged (assign_innerHTML m opts st) m"
proof -
  from assms have e: "children st (modal_content st m) = []" by (simp add: staged_def)
  have "page_inv (assign_innerHTML m opts st)"
    by (rule page_inv_cong[of st]) (use assms in \<open>simp_all add: assign_innerHTML_eq[OF e] staged_def split: option.splits\<close>)
  then show ?thesis using assms by (simp add: staged_def assign_innerHTML_eq[OF e] split: option.splits)
qed

lemma page_invI:
  assumes "body st < nextNode st"
    and "\<And>n p. parentNode st n = Some p \<Longrightarrow> p < n"
    and "tasks_inv st"
    and "\<And>r. window_modalRegion st = Some r \<Longrightarrow> region_inv st r"
    and "window_modalRegion st = None \<Longrightarrow> nextModal st = 0 \<and> nextRegion st = 0"
  shows "page_inv st"
  using assms by (auto simp: page_inv_def split: option.splits)

lemma staged_region:
  assumes "page_inv st" and "nextModal st = Suc m"
  obtains r where "window_modalRegion st = Some r" and "region_inv st r" and "modal_inv st r m"
proof (cases "window_modalRegion st")
  case None
  with page_invD(5)[OF assms(1)] assms(2) show ?thesis by simp
next
  case (Some r)
  note rd = region_invD[OF page_invD(4)[OF assms(1) Some]]
  have "modal_inv st r m" using assms(2) by (intro rd(8)) simp
  with Some page_invD(4)[OF assms(1) Some] show ?thesis by (rule that)
qed

lemma placed_place_content:
  assumes "staged st m"
  shows "placed (place_content m st) m"
proof -
  let ?cov = "modal_cover st m"
  let ?st' = "place_content m st"
  from assms have inv: "page_inv st" and n: "nextModal st = Suc m"
    and l: "parentNode st ?cov = None" "parentNode st (modal_content st m) = None"
    by (simp_all add: staged_def)
  note pd = page_invD[OF inv]
  from staged_region[OF inv n] obtain r where w: "window_modalRegion st = Some r"
    and ri: "region_inv st r" and mi: "modal_inv st r m" by blast
  note rd = region_invD[OF ri]
  note md = modal_invD[OF mi]
  note mdo = modal_invD[OF rd(8)]
  let ?el = "region_element st r"
  have eq: "?st' = st\<lparr> children := (children st)(?cov := children st ?cov @ [Suc ?cov]),
                        parentNode := (parentNode st)(Suc ?cov := Some ?cov),
                        journal := journal st @ [Inserted ?cov (Suc ?cov)] \<rparr>"
    using l md(3) by (simp add: place_content_def appendChild_loose)
  have ne: "modal_cover st y \<noteq> Suc ?cov" if "y < nextModal st" for y
    using mdo(5)[OF that] md(6) by auto
  have cov: "covers_in ?st' ?el = covers_in st ?el"
    by (rule covers_in_cong) (use ne in \<open>simp_all add: eq\<close>)
  have reg: "region_inv ?st' r"
    unfolding region_inv_def
  proof (intro conjI allI impI)
    show "r = 0" "nextRegion ?st' = 1" using rd(1,2) by (simp_all add: eq)
    show "body ?st' < region_element ?st' r" using rd(3) by (simp add: eq)
    show "region_element ?st' r < nextNode ?st'" using rd(4) by (simp add: eq)
    show "parentNode ?st' (region_element ?st' r) = Some (body ?st')"
      using rd(5) md(2) by (simp add: eq)
    show "firstChild ?st' (body ?st') = Some (region_element ?st' r)"
      using rd(6) rd(3) md(2) by (simp add: eq firstChild_def)
    show "children ?st' (region_element ?st' r) = covers_in ?st' (region_element ?st' r)"
      using rd(7) md(2) cov by (simp add: eq)
    show "modal_inv ?st' r y" if "y < nextModal ?st'" for y
    proof -
      from that have lt: "y < nextModal st" by (simp add: eq)
      from mdo[OF lt] ne[OF lt] show ?thesis by (simp add: eq modal_inv_def)
    qed
  qed
  have "page_inv ?st'"
  proof (rule page_invI)
    show "body ?st' < nextNode ?st'" using pd(1) by (simp add: eq)
    show "p < n" if "parentNode ?st' n = Some p" for n p
      using that pd(2)[of n p] by (simp add: eq split: if_splits)
    show "tasks_inv ?st'"
      by (rule tasks_invI[OF pd(3), where R = "{}" and T = "{}"])
         (simp_all add: eq all_reactions_def)
    show "region_inv ?st' r'" if "window_modalRegion ?st' = Some r'" for r'
      using that reg w by (simp add: eq)
    show "nextModal ?st' = 0 \<and> nextRegion ?st' = 0" if "window_modalRegion ?st' = None"
      using that w by (simp add: eq)
  qed
  then show ?thesis using n l by (simp add: placed_def) (simp add: eq)
qed

text \<open>A change that leaves the tree and the objects alone.\<close>

lemma page_inv_frame:
  assumes inv: "page_inv st"
    and same: "nextNode st' = nextNode st" "parentNode st' = parentNode st"
      "children st' = children st" "modal st' = modal st"
      "body st' = body st" "window_modalRegion st' = window_modalRegion st"
      "nextRegion st' = nextRegion st" "region_element st' = region_element st"
      "nextModal st' = nextModal st" "modal_region st' = modal_region st"
      "modal_cover st' = modal_cover st" "modal_content st' = modal_content st"
    and tasks: "tasks_inv st'"
    and clicks: "\<And>m. m < nextModal st \<Longrightarrow>
        onclick st' (modal_cover st m) = None \<or>
        onclick st' (modal_cover st m) = Some (CoverClick m)"
  shows "page_inv st'"
proof (rule page_invI)
  note pd = page_invD[OF inv]
  show "body st' < nextNode st'" using pd(1) by (simp add: same)
  show "p < n" if "parentNode st' n = Some p" for n p
    using that pd(2)[of n p] by (simp add: same)
  show "tasks_inv st'" by (rule tasks)
  show "nextModal st' = 0 \<and> nextRegion st' = 0" if "window_modalRegion st' = None"
    using that pd(5) by (simp add: same)
  show "region_inv st' r" if "window_modalRegion st' = Some r" for r
  proof -
    from that have w: "window_modalRegion st = Some r" by (simp add: same)
    note rd = region_invD[OF pd(4)[OF w]]
    have c: "covers_in st' (region_element st r) = covers_in st (region_element st r)"
      by (rule covers_in_cong) (simp_all add: same)
    show ?thesis
      unfolding region_inv_def
    proof (intro conjI allI impI)
      show "r = 0" "nextRegion st' = 1" using rd(1,2) by (simp_all add: same)
      show "body st' < region_element st' r" using rd(3) by (simp add: same)
      show "region_element st' r < nextNode st'" using rd(4) by (simp add: same)
      show "parentNode st' (region_element st' r) = Some (body st')"
        using rd(5) by (simp add: same)
      show "firstChild st' (body st') = Some (region_element st' r)"
        using rd(6) by (simp add: same firstChild_def)
      show "children st' (region_element st' r) = covers_in st' (region_element st' r)"
        using rd(7) c by (simp add: same)
      show "modal_inv st' r m" if "m < nextModal st'" for m
      proof -
        from that have lt: "m < nextModal st" by (simp add: same)
        from modal_invD[OF rd(8)[OF lt]] clicks[OF lt] show ?thesis
          by (simp add: modal_inv_def same)
      qed
    qed
  qed
qed

text \<open>A change of the tree: child lists and parent pointers only.\<close>

lemma page_inv_tree:
  assumes inv: "page_inv st"
    and eq: "st' = st\<lparr> children := ch, parentNode := par, journal := j \<rparr>"
    and older: "\<And>n p. par n = Some p \<Longrightarrow> p < n"
    and region: "\<And>r. window_modalRegion st = Some r \<Longrightarrow>
        par (region_element st r) = Some (body st) \<and>
        ch (body st) = children st (body st) \<and>
        ch (region_element st r) = covers_in st' (region_element st r) \<and>
        (\<forall>m < nextModal st. par (modal_cover st m) = None \<or>
                             par (modal_cover st m) = Some (region_element st r))"
  shows "page_inv st'"
proof (rule page_invI)
  note pd = page_invD[OF inv]
  show "body st' < nextNode st'" using pd(1) by (simp add: eq)
  show "p < n" if "parentNode st' n = Some p" for n p
    using that older[of n p] by (simp add: eq)
  show "tasks_inv st'"
    by (rule tasks_invI[OF pd(3), where R = "{}" and T = "{}"])
       (simp_all add: eq all_reactions_def)
  show "nextModal st' = 0 \<and> nextRegion st' = 0" if "window_modalRegion st' = None"
    using that pd(5) by (simp add: eq)
  show "region_inv st' r" if "window_modalRegion st' = Some r" for r
  proof -
    from that have w: "window_modalRegion st = Some r" by (simp add: eq)
    note rd = region_invD[OF pd(4)[OF w]]
    note rg = region[OF w]
    show ?thesis
      unfolding region_inv_def
    proof (intro conjI allI impI)
      show "r = 0" "nextRegion st' = 1" using rd(1,2) by (simp_all add: eq)
      show "body st' < region_element st' r" using rd(3) by (simp add: eq)
      show "region_element st' r < nextNode st'" using rd(4) by (simp add: eq)
      show "parentNode st' (region_element st' r) = Some (body st')"
        using rg by (simp add: eq)
      show "firstChild st' (body st') = Some (region_element st' r)"
        using rd(6) rg by (simp add: eq firstChild_def)
      show "children st' (region_element st' r) = covers_in st' (region_element st' r)"
        using rg by (simp add: eq)
      show "modal_inv st' r m" if "m < nextModal st'" for m
      proof -
        from that have lt: "m < nextModal st" by (simp add: eq)
        from rg lt have "par (modal_cover st m) = None \<or>
            par (modal_cover st m) = Some (region_element st r)" by simp
        with modal_invD[OF rd(8)[OF lt]] show ?thesis
          by (simp add: modal_inv_def eq)
      qed
    qed
  qed
qed

lemma page_inv_push_into_region:
  assumes "placed st m"
  shows "page_inv (push_into_region m st)"
proof -
  let ?cov = "modal_cover st m"
  from assms have inv: "page_inv st" and n: "nextModal st = Suc m"
    and l: "parentNode st ?cov = None"
    by (simp_all add: placed_def)
  note pd = page_invD[OF inv]
  from staged_region[OF inv n] obtain r where w: "window_modalRegion st = Some r"
    and ri: "region_inv st r" and mi: "modal_inv st r m" by blast
  note rd = region_invD[OF ri]
  note md = modal_invD[OF mi]
  note mdo = modal_invD[OF rd(8)]
  let ?el = "region_element st r"
  let ?st' = "st\<lparr> children := (children st)(?el := children st ?el @ [?cov]),
                   parentNode := (parentNode st)(?cov := Some ?el),
                   journal := journal st @ [Inserted ?el ?cov] \<rparr>"
  have eq: "push_into_region m st = ?st'"
    using l md(1) by (simp add: push_into_region_def appendChild_loose)
  have ne: "modal_cover st y \<noteq> ?cov" if "y < m" for y
  proof -
    from that n have "y < nextModal st" by simp
    from mdo(5)[OF this] md(5) that show ?thesis by auto
  qed
  have cov: "covers_in ?st' ?el = covers_in st ?el @ [?cov]"
    by (rule covers_in_push[where m = m]) (use n l ne in \<open>simp_all\<close>)
  have "page_inv ?st'"
  proof (rule page_inv_tree[OF inv refl])
    show "p < k" if "((parentNode st)(?cov := Some ?el)) k = Some p" for k p
      using that pd(2)[of k p] md(2) by (simp split: if_splits)
    show "((parentNode st)(?cov := Some ?el)) (region_element st r') = Some (body st) \<and>
        ((children st)(?el := children st ?el @ [?cov])) (body st) = children st (body st) \<and>
        ((children st)(?el := children st ?el @ [?cov])) (region_element st r')
          = covers_in ?st' (region_element st r') \<and>
        (\<forall>y < nextModal st. ((parentNode st)(?cov := Some ?el)) (modal_cover st y) = None \<or>
            ((parentNode st)(?cov := Some ?el)) (modal_cover st y) = Some (region_element st r'))"
      if "window_modalRegion st = Some r'" for r'
    proof -
      from that w have r': "r' = r" by simp
      show ?thesis
        unfolding r'
      proof (intro conjI allI impI)
        show "((parentNode st)(?cov := Some ?el)) ?el = Some (body st)"
          using rd(5) md(2) by simp
        show "((children st)(?el := children st ?el @ [?cov])) (body st) = children st (body st)"
          using rd(3) by simp
        show "((children st)(?el := children st ?el @ [?cov])) ?el = covers_in ?st' ?el"
          using cov rd(7) by simp
        show "((parentNode st)(?cov := Some ?el)) (modal_cover st y) = None \<or>
              ((parentNode st)(?cov := Some ?el)) (modal_cover st y) = Some ?el"
          if "y < nextModal st" for y
          using mdo(7)[OF that] by simp
      qed
    qed
  qed
  then show ?thesis by (simp add: eq)
qed

subsection \<open>appear, disappear and close\<close>

lemma timer_delay_0 [simp]: "timer_delay 0 = 0"
  by (simp add: timer_delay_def)

lemma timer_delay_small: "0 \<le> d \<Longrightarrow> d < 2 ^ 31 \<Longrightarrow> timer_delay d = nat d"
  by (simp add: timer_delay_def)

lemma timer_delay_le: "0 \<le> d \<Longrightarrow> timer_delay d \<le> nat d"
proof -
  assume "0 \<le> d"
  then have "d mod 2 ^ 32 \<le> d" by (rule zmod_le_nonneg_dividend)
  then have "nat (d mod 2 ^ 32) \<le> nat d" by (rule nat_mono)
  then show ?thesis by (simp add: timer_delay_def Let_def)
qed

text \<open>What \<open>appear\<close> and \<open>close\<close> of modal \<open>m\<close> write into the journal on page \<open>st\<close>.\<close>

definition appear_effects :: "page \<Rightarrow> nat \<Rightarrow> effect list" where
  "appear_effects st m =
     (if positive (modal_animationTime st m) then
        [OpacitySet (modal_cover st m) ''0'',
         TransitionSet (modal_cover st m)
           (''opacity '' @ string_of_nat (nat (the (modal_animationTime st m))) @ ''ms ease''),
         Promised (length (promises st)),
         Scheduled (AppearTick m (length (promises st))) (now st)]
      else [Promised (length (promises st))])"

definition close_effects :: "page \<Rightarrow> nat \<Rightarrow> effect list" where
  "close_effects st m =
     (if positive (modal_animationTime st m) then
        [OpacitySet (modal_cover st m) ''0'',
         Promised (length (promises st)),
         Scheduled (DisappearTick (length (promises st)))
           (now st + timer_delay (the (modal_animationTime st m))),
         Promised (Suc (length (promises st))),
         Chained (length (promises st)) (Suc (length (promises st)))]
      else
        [Promised (length (promises st)),
         Promised (Suc (length (promises st))),
         Chained (length (promises st)) (Suc (length (promises st)))])"

lemma appear_eq:
  "appear m st =
     (length (promises st),
      if positive (modal_animationTime st m) then
        st\<lparr> style_opacity := (style_opacity st)(modal_cover st m := Some ''0''),
            style_transition := (style_transition st)(modal_cover st m :=
               Some (''opacity '' @ string_of_nat (nat (the (modal_animationTime st m)))
                     @ ''ms ease'')),
            promises := promises st @ [Pending []],
            timers := timers st @ [(now st, AppearTick m (length (promises st)))],
            journal := journal st @ appear_effects st m \<rparr>
      else st\<lparr> promises := promises st @ [Fulfilled],
               journal := journal st @ appear_effects st m \<rparr>)"
  by (simp add: appear_def Promise_resolve_def new_promise_def setTimeout_def Let_def
      appear_effects_def)

lemma close_eq:
  "close m st =
     (Suc (length (promises st)),
      if positive (modal_animationTime st m) then
        st\<lparr> style_opacity := (style_opacity st)(modal_cover st m := Some ''0''),
            promises := promises st @ [Pending [CloseThen m (Suc (length (promises st)))],
                                       Pending []],
            timers := timers st @ [(now st + timer_delay (the (modal_animationTime st m)),
                                    DisappearTick (length (promises st)))],
            journal := journal st @ close_effects st m \<rparr>
      else st\<lparr> promises := promises st @ [Fulfilled, Pending []],
               microtasks := microtasks st @ [CloseThen m (Suc (length (promises st)))],
               journal := journal st @ close_effects st m \<rparr>)"
  by (simp add: close_def disappear_def Promise_then_def Promise_resolve_def new_promise_def
      setTimeout_def Let_def nth_append list_update_append close_effects_def)

lemma cover_inj:
  assumes "region_inv st r" and "y < nextModal st" and "m < nextModal st"
    and "modal_cover st y = modal_cover st m"
  shows "y = m"
proof -
  have "modal st (modal_cover st y) = Some y" "modal st (modal_cover st m) = Some m"
    using assms(1-3) by (simp_all only: modal_invD(5)[OF region_invD(8)])
  with assms(4) show ?thesis by (metis option.inject)
qed

lemma tasks_inv_frame:
  assumes "tasks_inv st"
    and "microtasks st' = microtasks st" "promises st' = promises st"
    and "timers st' = timers st" "nextModal st' = nextModal st"
  shows "tasks_inv st'"
  using assms(1) by (simp add: tasks_inv_def all_reactions_def assms(2-))

lemma establish_onclick_frame:
  "nextNode (establish_onclick m opts st) = nextNode st"
  "parentNode (establish_onclick m opts st) = parentNode st"
  "children (establish_onclick m opts st) = children st"
  "modal (establish_onclick m opts st) = modal st"
  "body (establish_onclick m opts st) = body st"
  "window_modalRegion (establish_onclick m opts st) = window_modalRegion st"
  "nextRegion (establish_onclick m opts st) = nextRegion st"
  "region_element (establish_onclick m opts st) = region_element st"
  "nextModal (establish_onclick m opts st) = nextModal st"
  "modal_region (establish_onclick m opts st) = modal_region st"
  "modal_cover (establish_onclick m opts st) = modal_cover st"
  "modal_content (establish_onclick m opts st) = modal_content st"
  "modal_animationTime (establish_onclick m opts st) = modal_animationTime st"
  "payload (establish_onclick m opts st) = payload st"
  "style_opacity (establish_onclick m opts st) = style_opacity st"
  "style_transition (establish_onclick m opts st) = style_transition st"
  "microtasks (establish_onclick m opts st) = microtasks st"
  "promises (establish_onclick m opts st) = promises st"
  "timers (establish_onclick m opts st) = timers st"
  "now (establish_onclick m opts st) = now st"
  by (simp_all add: establish_onclick_def)

lemma establish_onclick_onclick:
  "onclick (establish_onclick m opts st) =
     (if closeOnCoverClick opts = Some False then onclick st
      else (onclick st)(modal_cover st m := Some (CoverClick m)))"
  by (cases "closeOnCoverClick opts") (auto simp: establish_onclick_def)

lemma placed_establish_onclick:
  assumes "placed st m"
  shows "placed (establish_onclick m opts st) m"
proof -
  let ?st' = "establish_onclick m opts st"
  from assms have inv: "page_inv st" and n: "nextModal st = Suc m"
    by (simp_all add: placed_def)
  from staged_region[OF inv n] obtain r where w: "window_modalRegion st = Some r"
    and ri: "region_inv st r" and mi: "modal_inv st r m" by blast
  note mdo = modal_invD[OF region_invD(8)[OF ri]]
  have "page_inv ?st'"
  proof (rule page_inv_frame[OF inv])
    show "tasks_inv ?st'"
      by (rule tasks_inv_frame[OF page_invD(3)[OF inv]]) (simp_all only: establish_onclick_frame)
    show "onclick ?st' (modal_cover st y) = None \<or>
          onclick ?st' (modal_cover st y) = Some (CoverClick y)" if "y < nextModal st" for y
    proof (cases "modal_cover st y = modal_cover st m")
      case True
      then have "y = m" using cover_inj[OF ri that] n by simp
      then show ?thesis using mdo(8)[OF that] by (simp add: establish_onclick_onclick)
    next
      case False
      then show ?thesis using mdo(8)[OF that] by (simp add: establish_onclick_onclick)
    qed
  qed (simp_all only: establish_onclick_frame)
  then show ?thesis using assms by (simp add: placed_def establish_onclick_frame)
qed

lemma default_animationTime_frame:
  "nextNode (default_animationTime m opts st) = nextNode st"
  "parentNode (default_animationTime m opts st) = parentNode st"
  "children (default_animationTime m opts st) = children st"
  "modal (default_animationTime m opts st) = modal st"
  "body (default_animationTime m opts st) = body st"
  "window_modalRegion (default_animationTime m opts st) = window_modalRegion st"
  "nextRegion (default_animationTime m opts st) = nextRegion st"
  "region_element (default_animationTime m opts st) = region_element st"
  "nextModal (default_animationTime m opts st) = nextModal st"
  "modal_region (default_animationTime m opts st) = modal_region st"
  "modal_cover (default_animationTime m opts st) = modal_cover st"
  "modal_content (default_animationTime m opts st) = modal_content st"
  "onclick (default_animationTime m opts st) = onclick st"
  "payload (default_animationTime m opts st) = payload st"
  "style_opacity (default_animationTime m opts st) = style_opacity st"
  "style_transition (default_animationTime m opts st) = style_transition st"
  "microtasks (default_animationTime m opts st) = microtasks st"
  "promises (default_animationTime m opts st) = promises st"
  "timers (default_animationTime m opts st) = timers st"
  "now (default_animationTime m opts st) = now st"
  by (simp_all add: default_animationTime_def)

lemma placed_default_animationTime:
  assumes "placed st m"
  shows "placed (default_animationTime m opts st) m"
proof -
  from assms have inv: "page_inv st" by (simp add: placed_def)
  have "page_inv (default_animationTime m opts st)"
    by (rule page_inv_cong[OF inv]) (simp_all only: default_animationTime_frame)
  then show ?thesis using assms by (simp add: placed_def default_animationTime_frame)
qed

lemma appear_positive:
  "positive (modal_animationTime st m) \<Longrightarrow>
   snd (appear m st) =
     st\<lparr> style_opacity := (style_opacity st)(modal_cover st m := Some ''0''),
         style_transition := (style_transition st)(modal_cover st m :=
            Some (''opacity '' @ string_of_nat (nat (the (modal_animationTime st m)))
                  @ ''ms ease'')),
         promises := promises st @ [Pending []],
         timers := timers st @ [(now st, AppearTick m (length (promises st)))],
         journal := journal st @ appear_effects st m \<rparr>"
  by (simp add: appear_eq)

lemma appear_instant:
  "\<not> positive (modal_animationTime st m) \<Longrightarrow>
   snd (appear m st) =
     st\<lparr> promises := promises st @ [Fulfilled], journal := journal st @ appear_effects st m \<rparr>"
  by (simp add: appear_eq)

lemma appear_frame:
  "nextNode (snd (appear m st)) = nextNode st"
  "parentNode (snd (appear m st)) = parentNode st"
  "children (snd (appear m st)) = children st"
  "modal (snd (appear m st)) = modal st"
  "body (snd (appear m st)) = body st"
  "window_modalRegion (snd (appear m st)) = window_modalRegion st"
  "nextRegion (snd (appear m st)) = nextRegion st"
  "region_element (snd (appear m st)) = region_element st"
  "nextModal (snd (appear m st)) = nextModal st"
  "modal_region (snd (appear m st)) = modal_region st"
  "modal_cover (snd (appear m st)) = modal_cover st"
  "modal_content (snd (appear m st)) = modal_content st"
  "modal_animationTime (snd (appear m st)) = modal_animationTime st"
  "onclick (snd (appear m st)) = onclick st"
  "payload (snd (appear m st)) = payload st"
  "microtasks (snd (appear m st)) = microtasks st"
  "now (snd (appear m st)) = now st"
  by (cases "positive (modal_animationTime st m)"; simp add: appear_positive appear_instant)+

lemma tasks_inv_appear:
  assumes ti: "tasks_inv st"
  shows "tasks_inv (snd (appear m st))"
proof (cases "positive (modal_animationTime st m)")
  case True
  note eq = appear_positive[OF True]
  show ?thesis
  proof (rule tasks_invI[OF ti, where R = "{}"
        and T = "{(now st, AppearTick m (length (promises st)))}"])
    show "set (all_reactions (snd (appear m st))) \<subseteq> set (all_reactions st) \<union> {}"
      by (simp add: eq all_reactions_def)
    show "set (timers (snd (appear m st))) \<subseteq> set (timers st) \<union>
        {(now st, AppearTick m (length (promises st)))}"
      by (simp add: eq)
  qed (simp_all add: eq)
next
  case False
  note eq = appear_instant[OF False]
  show ?thesis
  proof (rule tasks_invI[OF ti, where R = "{}" and T = "{}"])
    show "set (all_reactions (snd (appear m st))) \<subseteq> set (all_reactions st) \<union> {}"
      by (simp add: eq all_reactions_def)
  qed (simp_all add: eq)
qed

lemma placed_appear:
  assumes "placed st m"
  shows "placed (snd (appear m st)) m"
proof -
  let ?st' = "snd (appear m st)"
  from assms have inv: "page_inv st" and n: "nextModal st = Suc m"
    by (simp_all add: placed_def)
  from staged_region[OF inv n] obtain r where w: "window_modalRegion st = Some r"
    and ri: "region_inv st r" and mi: "modal_inv st r m" by blast
  note mdo = modal_invD[OF region_invD(8)[OF ri]]
  have "page_inv ?st'"
  proof (rule page_inv_frame[OF inv])
    show "tasks_inv ?st'" by (rule tasks_inv_appear[OF page_invD(3)[OF inv]])
    show "onclick ?st' (modal_cover st y) = None \<or>
          onclick ?st' (modal_cover st y) = Some (CoverClick y)" if "y < nextModal st" for y
      using mdo(8)[OF that] by (simp only: appear_frame)
  qed (simp_all only: appear_frame)
  then show ?thesis using assms by (simp add: placed_def appear_frame)
qed

lemma Modal_body_inv:
  assumes "staged st m"
  shows "page_inv (snd (Modal_body m opts st))"
proof (cases "innerHTML opts \<noteq> None \<and> textContent opts \<noteq> None")
  case True
  then show ?thesis using assms by (simp add: Modal_body_def staged_def)
next
  case False
  have "page_inv (push_into_region m
           (snd (appear m
              (default_animationTime m opts
                 (establish_onclick m opts
                    (place_content m
                       (assign_innerHTML m opts
                          (assign_textContent m opts st))))))))"
    by (intro page_inv_push_into_region placed_appear placed_default_animationTime
        placed_establish_onclick placed_place_content staged_assign_innerHTML
        staged_assign_textContent assms)
  then show ?thesis unfolding Modal_body_def by (simp only: if_not_P[OF False] snd_conv)
qed

lemma Modal_constructor_eq:
  "Modal_constructor opts st = Modal_body (nextModal st) opts (snd (Modal_fields st))"
  by (simp add: Modal_constructor_def split_def Modal_fields_fst)

lemma page_inv_Modal_constructor:
  "page_inv st \<Longrightarrow> page_inv (snd (Modal_constructor opts st))"
  by (simp add: Modal_constructor_eq Modal_body_inv Modal_fields_staged)


lemma close_fst: "fst (close m st) = Suc (length (promises st))"
  by (simp add: close_eq)

lemma close_positive:
  "positive (modal_animationTime st m) \<Longrightarrow>
   snd (close m st) =
     st\<lparr> style_opacity := (style_opacity st)(modal_cover st m := Some ''0''),
         promises := promises st @ [Pending [CloseThen m (Suc (length (promises st)))],
                                    Pending []],
         timers := timers st @ [(now st + timer_delay (the (modal_animationTime st m)),
                                 DisappearTick (length (promises st)))],
         journal := journal st @ close_effects st m \<rparr>"
  by (simp add: close_eq)

lemma close_instant:
  "\<not> positive (modal_animationTime st m) \<Longrightarrow>
   snd (close m st) =
     st\<lparr> promises := promises st @ [Fulfilled, Pending []],
         microtasks := microtasks st @ [CloseThen m (Suc (length (promises st)))],
         journal := journal st @ close_effects st m \<rparr>"
  by (simp add: close_eq)

lemma tasks_inv_close:
  assumes ti: "tasks_inv st" and m: "m < nextModal st"
  shows "tasks_inv (snd (close m st))"
proof (cases "positive (modal_animationTime st m)")
  case True
  note eq = close_positive[OF True]
  show ?thesis
  proof (rule tasks_invI[OF ti, where R = "{CloseThen m (Suc (length (promises st)))}"
        and T = "{(now st + timer_delay (the (modal_animationTime st m)),
                   DisappearTick (length (promises st)))}"])
    show "set (all_reactions (snd (close m st)))
        \<subseteq> set (all_reactions st) \<union> {CloseThen m (Suc (length (promises st)))}"
      by (auto simp: eq all_reactions_def)
    show "set (timers (snd (close m st))) \<subseteq> set (timers st) \<union>
        {(now st + timer_delay (the (modal_animationTime st m)),
          DisappearTick (length (promises st)))}"
      by (simp add: eq)
  qed (use m in \<open>simp_all add: eq\<close>)
next
  case False
  note eq = close_instant[OF False]
  show ?thesis
  proof (rule tasks_invI[OF ti, where R = "{CloseThen m (Suc (length (promises st)))}"
        and T = "{}"])
    show "set (all_reactions (snd (close m st)))
        \<subseteq> set (all_reactions st) \<union> {CloseThen m (Suc (length (promises st)))}"
      by (auto simp: eq all_reactions_def)
  qed (use m in \<open>simp_all add: eq\<close>)
qed

lemma close_frame:
  "nextNode (snd (close m st)) = nextNode st"
  "parentNode (snd (close m st)) = parentNode st"
  "children (snd (close m st)) = children st"
  "modal (snd (close m st)) = modal st"
  "body (snd (close m st)) = body st"
  "window_modalRegion (snd (close m st)) = window_modalRegion st"
  "nextRegion (snd (close m st)) = nextRegion st"
  "region_element (snd (close m st)) = region_element st"
  "nextModal (snd (close m st)) = nextModal st"
  "modal_region (snd (close m st)) = modal_region st"
  "modal_cover (snd (close m st)) = modal_cover st"
  "modal_content (snd (close m st)) = modal_content st"
  "modal_animationTime (snd (close m st)) = modal_animationTime st"
  "onclick (snd (close m st)) = onclick st"
  "payload (snd (close m st)) = payload st"
  "now (snd (close m st)) = now st"
  by (cases "positive (modal_animationTime st m)"; simp add: close_positive close_instant)+

lemma page_inv_close:
  assumes inv: "page_inv st" and m: "m < nextModal st"
  shows "page_inv (snd (close m st))"
proof -
  let ?st' = "snd (close m st)"
  note pd = page_invD[OF inv]
  show ?thesis
  proof (rule page_inv_frame[OF inv])
    show "tasks_inv ?st'" by (rule tasks_inv_close[OF pd(3) m])
    show "onclick ?st' (modal_cover st y) = None \<or>
          onclick ?st' (modal_cover st y) = Some (CoverClick y)" if "y < nextModal st" for y
    proof (cases "window_modalRegion st")
      case None
      with pd(5) that show ?thesis by simp
    next
      case (Some r)
      from modal_invD(8)[OF region_invD(8)[OF pd(4)[OF Some] that]] show ?thesis
        by (simp only: close_frame)
    qed
  qed (simp_all only: close_frame)
qed

subsection \<open>Promise resolution and the microtask checkpoint\<close>

lemma reactions_update_subset:
  "set (concat (map reactions_of (ps[p := x])))
     \<subseteq> set (concat (map reactions_of ps)) \<union> set (reactions_of x)"
proof -
  have "set (ps[p := x]) \<subseteq> insert x (set ps)" by (rule set_update_subset_insert)
  then show ?thesis by auto
qed

lemma reactions_nth_subset:
  "p < length ps \<Longrightarrow> set (reactions_of (ps ! p)) \<subseteq> set (concat (map reactions_of ps))"
  by (auto intro: nth_mem)

lemma resolve_frame:
  "nextNode (resolve p st) = nextNode st"
  "parentNode (resolve p st) = parentNode st"
  "children (resolve p st) = children st"
  "modal (resolve p st) = modal st"
  "body (resolve p st) = body st"
  "window_modalRegion (resolve p st) = window_modalRegion st"
  "nextRegion (resolve p st) = nextRegion st"
  "region_element (resolve p st) = region_element st"
  "nextModal (resolve p st) = nextModal st"
  "modal_region (resolve p st) = modal_region st"
  "modal_cover (resolve p st) = modal_cover st"
  "modal_content (resolve p st) = modal_content st"
  "modal_animationTime (resolve p st) = modal_animationTime st"
  "onclick (resolve p st) = onclick st"
  "payload (resolve p st) = payload st"
  "style_opacity (resolve p st) = style_opacity st"
  "style_transition (resolve p st) = style_transition st"
  "timers (resolve p st) = timers st"
  "now (resolve p st) = now st"
  "length (promises (resolve p st)) = length (promises st)"
  by (simp_all add: resolve_def split: promise.splits)

lemma all_reactions_resolve:
  "set (all_reactions (resolve p st)) \<subseteq> set (all_reactions st)"
proof (cases "p < length (promises st)")
  case False
  then show ?thesis by (simp add: resolve_def)
next
  case True
  show ?thesis
  proof (cases "promises st ! p")
    case Fulfilled
    with True show ?thesis by (simp add: resolve_def)
  next
    case (Pending rs)
    have a: "set rs \<subseteq> set (concat (map reactions_of (promises st)))"
      using reactions_nth_subset[OF True] Pending by simp
    have b: "set (concat (map reactions_of ((promises st)[p := Fulfilled])))
        \<subseteq> set (concat (map reactions_of (promises st)))"
      using reactions_update_subset[of "promises st" p Fulfilled] by simp
    have "all_reactions (resolve p st)
        = microtasks st @ rs @ concat (map reactions_of ((promises st)[p := Fulfilled]))"
      using True Pending by (simp add: resolve_def all_reactions_def)
    then show ?thesis using a b by (auto simp: all_reactions_def)
  qed
qed

lemma tasks_inv_resolve:
  assumes "tasks_inv st"
  shows "tasks_inv (resolve p st)"
  by (rule tasks_invI[OF assms, where R = "{}" and T = "{}"])
     (use all_reactions_resolve[of p st] in \<open>simp_all add: resolve_frame\<close>)

lemma page_inv_resolve:
  assumes inv: "page_inv st"
  shows "page_inv (resolve p st)"
proof -
  note pd = page_invD[OF inv]
  have c: "onclick (resolve p st) (modal_cover st y) = None \<or>
        onclick (resolve p st) (modal_cover st y) = Some (CoverClick y)"
    if "y < nextModal st" for y
  proof (cases "window_modalRegion st")
    case None
    with pd(5) that show ?thesis by simp
  next
    case (Some r)
    from modal_invD(8)[OF region_invD(8)[OF pd(4)[OF Some] that]] show ?thesis
      by (simp only: resolve_frame)
  qed
  show ?thesis
    by (rule page_inv_frame[OF inv _ _ _ _ _ _ _ _ _ _ _ _ tasks_inv_resolve[OF pd(3)] c])
       (simp_all only: resolve_frame)
qed

lemma page_inv_dom_remove_cover:
  assumes inv: "page_inv st" and m: "m < nextModal st"
  shows "page_inv (dom_remove (modal_cover st m) st)"
proof (cases "parentNode st (modal_cover st m)")
  case None
  then show ?thesis using inv by (simp add: dom_remove_def)
next
  case (Some p)
  let ?cov = "modal_cover st m"
  note pd = page_invD[OF inv]
  from m pd(5) obtain r where w: "window_modalRegion st = Some r"
    by (cases "window_modalRegion st") auto
  note ri = pd(4)[OF w]
  note rd = region_invD[OF ri]
  note mdo = modal_invD[OF rd(8)]
  let ?el = "region_element st r"
  from Some mdo(7)[OF m] have p: "p = ?el" by simp
  let ?st' = "st\<lparr> children := (children st)(?el := remove1 ?cov (children st ?el)),
                   parentNode := (parentNode st)(?cov := None),
                   journal := journal st @ [Removed ?el ?cov] \<rparr>"
  have eq: "dom_remove ?cov st = ?st'"
    using Some p by (simp add: dom_remove_def)
  have ne: "modal_cover st y \<noteq> ?cov" if "y < nextModal st" "y \<noteq> m" for y
    using cover_inj[OF ri that(1) m] that(2) by blast
  have cov: "covers_in ?st' ?el = remove1 ?cov (covers_in st ?el)"
    by (rule covers_in_remove) (use m mdo(5) ne in \<open>simp_all\<close>)
  have "page_inv ?st'"
  proof (rule page_inv_tree[OF inv refl])
    show "q < k" if "((parentNode st)(?cov := None)) k = Some q" for k q
      using that pd(2)[of k q] by (simp split: if_splits)
    show "((parentNode st)(?cov := None)) (region_element st r') = Some (body st) \<and>
        ((children st)(?el := remove1 ?cov (children st ?el))) (body st) = children st (body st) \<and>
        ((children st)(?el := remove1 ?cov (children st ?el))) (region_element st r')
          = covers_in ?st' (region_element st r') \<and>
        (\<forall>y < nextModal st. ((parentNode st)(?cov := None)) (modal_cover st y) = None \<or>
            ((parentNode st)(?cov := None)) (modal_cover st y) = Some (region_element st r'))"
      if "window_modalRegion st = Some r'" for r'
    proof -
      from that w have r': "r' = r" by simp
      show ?thesis
        unfolding r'
      proof (intro conjI allI impI)
        show "((parentNode st)(?cov := None)) ?el = Some (body st)"
          using rd(5) mdo(2)[OF m] by simp
        show "((children st)(?el := remove1 ?cov (children st ?el))) (body st)
            = children st (body st)"
          using rd(3) by simp
        show "((children st)(?el := remove1 ?cov (children st ?el))) ?el = covers_in ?st' ?el"
          using cov rd(7) by simp
        show "((parentNode st)(?cov := None)) (modal_cover st y) = None \<or>
              ((parentNode st)(?cov := None)) (modal_cover st y) = Some ?el"
          if "y < nextModal st" for y
          using mdo(7)[OF that] by simp
      qed
    qed
  qed
  then show ?thesis by (simp only: eq)
qed

lemma run_reaction_frame:
  "nextNode (run_reaction t st) = nextNode st"
  "modal (run_reaction t st) = modal st"
  "body (run_reaction t st) = body st"
  "window_modalRegion (run_reaction t st) = window_modalRegion st"
  "nextRegion (run_reaction t st) = nextRegion st"
  "region_element (run_reaction t st) = region_element st"
  "nextModal (run_reaction t st) = nextModal st"
  "modal_region (run_reaction t st) = modal_region st"
  "modal_cover (run_reaction t st) = modal_cover st"
  "modal_content (run_reaction t st) = modal_content st"
  "modal_animationTime (run_reaction t st) = modal_animationTime st"
  "onclick (run_reaction t st) = onclick st"
  "payload (run_reaction t st) = payload st"
  "style_opacity (run_reaction t st) = style_opacity st"
  "style_transition (run_reaction t st) = style_transition st"
  "timers (run_reaction t st) = timers st"
  "now (run_reaction t st) = now st"
  "length (promises (run_reaction t st)) = length (promises st)"
  by (cases t; simp add: resolve_frame dom_remove_def split: option.splits)+

lemma page_inv_pop:
  assumes inv: "page_inv st" and q: "microtasks st = t # ts"
  shows "page_inv (st\<lparr> microtasks := ts \<rparr>)"
proof -
  note pd = page_invD[OF inv]
  have ti: "tasks_inv (st\<lparr> microtasks := ts \<rparr>)"
    by (rule tasks_invI[OF pd(3), where R = "{}" and T = "{}"])
       (use q in \<open>auto simp: all_reactions_def\<close>)
  have c: "onclick (st\<lparr> microtasks := ts \<rparr>) (modal_cover st y) = None \<or>
        onclick (st\<lparr> microtasks := ts \<rparr>) (modal_cover st y) = Some (CoverClick y)"
    if "y < nextModal st" for y
  proof (cases "window_modalRegion st")
    case None
    with pd(5) that show ?thesis by simp
  next
    case (Some r)
    from modal_invD(8)[OF region_invD(8)[OF pd(4)[OF Some] that]] show ?thesis by simp
  qed
  show ?thesis
    by (rule page_inv_frame[OF inv _ _ _ _ _ _ _ _ _ _ _ _ ti c]) simp_all
qed

lemma page_inv_run_reaction:
  assumes inv: "page_inv st" and q: "microtasks st = t # ts"
  shows "page_inv (run_reaction t (st\<lparr> microtasks := ts \<rparr>))"
proof -
  obtain m p where t: "t = CloseThen m p" by (cases t)
  have "t \<in> set (all_reactions st)" using q by (simp add: all_reactions_def)
  then have m: "m < nextModal st"
    using page_invD(3)[OF inv] t by (auto simp: tasks_inv_def)
  have "page_inv (dom_remove (modal_cover (st\<lparr> microtasks := ts \<rparr>) m) (st\<lparr> microtasks := ts \<rparr>))"
    by (rule page_inv_dom_remove_cover[OF page_inv_pop[OF inv q]]) (use m in simp)
  then show ?thesis by (simp add: t page_inv_resolve)
qed

lemma drain_Nil: "microtasks st = [] \<Longrightarrow> drain st = st"
  by (subst drain.simps) simp

lemma drain_Cons:
  "microtasks st = t # ts \<Longrightarrow> drain st = drain (run_reaction t (st\<lparr> microtasks := ts \<rparr>))"
  by (subst drain.simps) simp

text \<open>Whatever every reaction preserves, the checkpoint preserves.\<close>

lemma drain_preserves:
  assumes "I st"
    and "\<And>s t ts. I s \<Longrightarrow> microtasks s = t # ts \<Longrightarrow> I (run_reaction t (s\<lparr> microtasks := ts \<rparr>))"
  shows "I (drain st)"
  using assms(1)
proof (induction st rule: drain.induct)
  case (1 st)
  show ?case
  proof (cases "microtasks st")
    case Nil
    then show ?thesis using "1.prems" by (simp add: drain_Nil)
  next
    case (Cons t ts)
    have "I (run_reaction t (st\<lparr> microtasks := ts \<rparr>))" by (rule assms(2)[OF "1.prems" Cons])
    then have "I (drain (run_reaction t (st\<lparr> microtasks := ts \<rparr>)))" by (rule "1.IH"[OF Cons])
    then show ?thesis by (simp add: drain_Cons[OF Cons])
  qed
qed

lemma page_inv_drain: "page_inv st \<Longrightarrow> page_inv (drain st)"
  by (rule drain_preserves) (simp_all add: page_inv_run_reaction)

lemma microtasks_drain: "microtasks (drain st) = []"
proof (induction st rule: drain.induct)
  case (1 st)
  show ?case
  proof (cases "microtasks st")
    case Nil
    then show ?thesis by (simp add: drain_Nil)
  next
    case (Cons t ts)
    then show ?thesis using "1.IH"[OF Cons] by (simp add: drain_Cons[OF Cons])
  qed
qed

subsection \<open>Timers\<close>

lemma page_inv_run_timer:
  assumes inv: "page_inv st"
  shows "page_inv (run_timer t st)"
proof (cases t)
  case (AppearTick m p)
  have "page_inv (st\<lparr> style_opacity := (style_opacity st)(modal_cover st m := Some ''1''),
                        journal := journal st @ [OpacitySet (modal_cover st m) ''1''] \<rparr>)"
    by (rule page_inv_cong[OF inv]) simp_all
  then show ?thesis by (simp add: AppearTick page_inv_resolve)
next
  case (DisappearTick p)
  then show ?thesis using inv by (simp add: page_inv_resolve)
qed

lemma page_inv_cancel:
  assumes inv: "page_inv st"
  shows "page_inv (st\<lparr> timers := take k (timers st) @ drop (Suc k) (timers st) \<rparr>)"
proof -
  let ?st' = "st\<lparr> timers := take k (timers st) @ drop (Suc k) (timers st) \<rparr>"
  note pd = page_invD[OF inv]
  have "set (take k (timers st)) \<subseteq> set (timers st)" "set (drop (Suc k) (timers st)) \<subseteq> set (timers st)"
    by (rule set_take_subset, rule set_drop_subset)
  then have "set (timers ?st') \<subseteq> set (timers st) \<union> {}" by simp
  then have ti: "tasks_inv ?st'"
    by (rule tasks_invI[OF pd(3), where R = "{}" and T = "{}", rotated]) (simp_all add: all_reactions_def)
  have c: "onclick ?st' (modal_cover st y) = None \<or>
        onclick ?st' (modal_cover st y) = Some (CoverClick y)"
    if "y < nextModal st" for y
  proof (cases "window_modalRegion st")
    case None
    with pd(5) that show ?thesis by simp
  next
    case (Some r)
    from modal_invD(8)[OF region_invD(8)[OF pd(4)[OF Some] that]] show ?thesis by simp
  qed
  show ?thesis
    by (rule page_inv_frame[OF inv _ _ _ _ _ _ _ _ _ _ _ _ ti c]) simp_all
qed

lemma page_inv_fire: "page_inv st \<Longrightarrow> page_inv (fire k st)"
  by (simp add: fire_def Let_def page_inv_drain page_inv_run_timer page_inv_cancel)

lemma page_inv_tick:
  assumes inv: "page_inv st"
  shows "page_inv (st\<lparr> now := now st + dt \<rparr>)"
  by (rule page_inv_cong[OF inv]) simp_all

subsection \<open>isNested\<close>

lemma isNested_loop_None: "isNested_loop par a None = Some False"
  by (subst isNested_loop.simps) simp

lemma isNested_loop_Some:
  "isNested_loop par a (Some w) =
     (if par w = Some a then Some True else isNested_loop par a (par w))"
  by (subst isNested_loop.simps) (simp add: Let_def)

text \<open>Where every parent is older than its child the walk ends, and it never meets a node
  that is not older than the start.\<close>

lemma isNested_loop_total:
  assumes "\<And>n p. par n = Some p \<Longrightarrow> p < n"
  shows "isNested_loop par a (Some w) \<noteq> None"
proof (induction w rule: less_induct)
  case (less w)
  show ?case
  proof (cases "par w")
    case None
    then show ?thesis by (simp add: isNested_loop_Some isNested_loop_None)
  next
    case (Some p)
    then have "p < w" by (rule assms)
    moreover have "isNested_loop par a (Some w) =
        (if p = a then Some True else isNested_loop par a (Some p))"
      using Some by (simp add: isNested_loop_Some)
    ultimately show ?thesis using less.IH[of p] by auto
  qed
qed

lemma isNested_loop_older:
  assumes "\<And>n p. par n = Some p \<Longrightarrow> p < n" and "w \<le> a"
  shows "isNested_loop par a (Some w) = Some False"
  using assms(2)
proof (induction w rule: less_induct)
  case (less w)
  show ?case
  proof (cases "par w")
    case None
    then show ?thesis by (simp add: isNested_loop_Some isNested_loop_None)
  next
    case (Some p)
    then have lt: "p < w" by (rule assms(1))
    with less.prems have pa: "p \<le> a" "p \<noteq> a" by simp_all
    have "isNested_loop par a (Some w) = isNested_loop par a (Some p)"
      using Some pa(2) by (simp add: isNested_loop_Some)
    then show ?thesis using less.IH[OF lt pa(1)] by simp
  qed
qed

text \<open>\<open>d\<close> lies below \<open>a\<close> in the tree of parent pointers.\<close>

inductive descendant :: "(nat \<Rightarrow> nat option) \<Rightarrow> nat \<Rightarrow> nat \<Rightarrow> bool" for par where
  child: "par d = Some a \<Longrightarrow> descendant par d a"
| below: "par d = Some p \<Longrightarrow> descendant par p a \<Longrightarrow> descendant par d a"

code_pred descendant .

lemma isNested_loop_descendant:
  "descendant par d a \<Longrightarrow> isNested_loop par a (Some d) = Some True"
  by (induction rule: descendant.induct) (simp_all add: isNested_loop_Some)

subsection \<open>Clicks\<close>

lemma cover_onclick_content: "cover_onclick m (modal_content st m) st = Some st"
  by (simp add: cover_onclick_def)

lemma cover_onclick_descendant:
  "descendant (parentNode st) t (modal_content st m) \<Longrightarrow> cover_onclick m t st = Some st"
  by (simp add: cover_onclick_def isNested_def isNested_loop_descendant)

lemma cover_onclick_cases:
  assumes "\<And>n p. parentNode st n = Some p \<Longrightarrow> p < n"
  shows "cover_onclick m t st = Some st \<or> cover_onclick m t st = Some (snd (close m st))"
proof -
  from isNested_loop_total[of "parentNode st" "modal_content st m" t] assms
  obtain b where "isNested st t (modal_content st m) = Some b"
    by (auto simp: isNested_def)
  then show ?thesis by (cases b) (simp_all add: cover_onclick_def)
qed

lemma click_cover_cases:
  assumes inv: "page_inv st" and m: "m < nextModal st"
  shows "click_cover m t st = Some st \<or> click_cover m t st = Some (snd (close m st))"
proof -
  note pd = page_invD[OF inv]
  from m pd(5) obtain r where w: "window_modalRegion st = Some r"
    by (cases "window_modalRegion st") auto
  from modal_invD(8)[OF region_invD(8)[OF pd(4)[OF w] m]]
  show ?thesis
  proof
    assume "onclick st (modal_cover st m) = None"
    then show ?thesis by (simp add: click_cover_def)
  next
    assume "onclick st (modal_cover st m) = Some (CoverClick m)"
    then show ?thesis using cover_onclick_cases[of st m t] pd(2) by (simp add: click_cover_def)
  qed
qed

subsection \<open>Every event keeps the invariant, and every event returns\<close>

lemma step_total:
  assumes "page_inv st"
  shows "\<exists>st'. step e st = Some st'"
proof (cases e)
  case (Click m t)
  then show ?thesis using click_cover_cases[OF assms, of m t] by auto
qed simp_all

lemma page_inv_step:
  assumes inv: "page_inv st" and s: "step e st = Some st'"
  shows "page_inv st'"
proof (cases e)
  case (New opts)
  with s inv show ?thesis by (auto simp: page_inv_Modal_constructor)
next
  case (Close m)
  with s inv show ?thesis by (auto simp: page_inv_close split: if_splits)
next
  case (Click m t)
  show ?thesis
  proof (cases "m < nextModal st \<and> t < nextNode st")
    case True
    with s Click click_cover_cases[OF inv, of m t] inv show ?thesis
      by (auto simp: page_inv_close)
  next
    case False
    with s Click inv show ?thesis by auto
  qed
next
  case (Tick dt)
  with s page_inv_tick[OF inv, of dt] show ?thesis by auto
next
  case Checkpoint
  with s inv show ?thesis by (auto simp: page_inv_drain)
next
  case (Fire k)
  with s inv show ?thesis by (auto simp: page_inv_fire)
qed

lemma exec_preserves:
  assumes "I st" and "exec es st = Some st'"
    and "\<And>e s s'. I s \<Longrightarrow> step e s = Some s' \<Longrightarrow> I s'"
  shows "I st'"
  using assms(1,2)
proof (induction es arbitrary: st)
  case Nil
  then show ?case by simp
next
  case (Cons e es)
  from Cons.prems(2) obtain s where s: "step e st = Some s" and r: "exec es s = Some st'"
    by (auto split: option.splits)
  from assms(3)[OF Cons.prems(1) s] r show ?case by (rule Cons.IH)
qed

lemma page_inv_exec: "page_inv st \<Longrightarrow> exec es st = Some st' \<Longrightarrow> page_inv st'"
  by (rule exec_preserves[where I = page_inv]) (simp_all add: page_inv_step)

lemma exec_total:
  assumes "page_inv st"
  shows "\<exists>st'. exec es st = Some st'"
  using assms
proof (induction es arbitrary: st)
  case Nil
  then show ?case by simp
next
  case (Cons e es)
  from step_total[OF Cons.prems] obtain s where s: "step e st = Some s" by blast
  from Cons.IH[OF page_inv_step[OF Cons.prems s]] s show ?case by simp
qed

lemma exec_append:
  "exec (es @ es') st = (case exec es st of None \<Rightarrow> None | Some s \<Rightarrow> exec es' s)"
  by (induction es arbitrary: st) (simp_all split: option.splits)

section \<open>The constructor as one change of the page\<close>

text \<open>What the content box holds after the two assignments of the constructor.\<close>

definition content_payload :: "ModalOptions \<Rightarrow> payload \<Rightarrow> payload" where
  "content_payload opts old =
     (let txt = (case textContent opts of
                   None \<Rightarrow> old
                 | Some t \<Rightarrow> if t = [] then Empty else Text t)
      in case innerHTML opts of
           None \<Rightarrow> txt
         | Some h \<Rightarrow> if h \<noteq> [] then Markup h else txt)"

text \<open>What the two assignments and the installation of the handler write into the
  journal.\<close>

definition content_effects :: "ModalOptions \<Rightarrow> nat \<Rightarrow> effect list" where
  "content_effects opts con =
     (case textContent opts of
        None \<Rightarrow> []
      | Some t \<Rightarrow> [ContentSet con (if t = [] then Empty else Text t),
                   ContentSet con (if t = [] then Empty else Text t)]) @
     (case innerHTML opts of
        None \<Rightarrow> []
      | Some h \<Rightarrow> if h \<noteq> [] then [ContentSet con (Markup h)] else [])"

definition onclick_effects :: "ModalOptions \<Rightarrow> nat \<Rightarrow> nat \<Rightarrow> effect list" where
  "onclick_effects opts m cov =
     (if closeOnCoverClick opts = Some False then [] else [HandlerSet cov (CoverClick m)])"

text \<open>The duration the constructor stores.\<close>

definition stored_animationTime :: "ModalOptions \<Rightarrow> int option" where
  "stored_animationTime opts = (if fadeTime opts \<noteq> None then animationTime opts else Some 250)"

definition before_appear :: "nat \<Rightarrow> ModalOptions \<Rightarrow> page \<Rightarrow> page" where
  "before_appear m opts st =
     default_animationTime m opts
       (establish_onclick m opts
          (place_content m
             (assign_innerHTML m opts
                (assign_textContent m opts st))))"

lemma Modal_body_success:
  "\<not> (innerHTML opts \<noteq> None \<and> textContent opts \<noteq> None) \<Longrightarrow>
   Modal_body m opts st = (Inr m, push_into_region m (snd (appear m (before_appear m opts st))))"
  unfolding Modal_body_def before_appear_def by (simp only: if_not_P if_False)

lemma Modal_body_failure:
  "innerHTML opts \<noteq> None \<and> textContent opts \<noteq> None \<Longrightarrow>
   Modal_body m opts st = (Inl ConfigurationError, st)"
  by (simp add: Modal_body_def)

lemma placed_before_appear: "staged st m \<Longrightarrow> placed (before_appear m opts st) m"
  unfolding before_appear_def
  by (intro placed_default_animationTime placed_establish_onclick placed_place_content
      staged_assign_innerHTML staged_assign_textContent)

lemma assigned_eq:
  assumes "children st (modal_content st m) = []"
  shows "assign_innerHTML m opts (assign_textContent m opts st) =
     st\<lparr> payload := (payload st)(modal_content st m :=
           content_payload opts (payload st (modal_content st m))),
         journal := journal st @ content_effects opts (modal_content st m) \<rparr>"
proof -
  have 1: "children (assign_textContent m opts st) (modal_content (assign_textContent m opts st) m) = []"
    "modal_content (assign_textContent m opts st) = modal_content st"
    using assms by (simp_all add: assign_textContent_eq split: option.splits)
  show ?thesis
    unfolding assign_innerHTML_eq[OF 1(1)] 1(2)
    by (cases "textContent opts"; cases "innerHTML opts")
       (simp_all add: assign_textContent_eq[OF assms] content_payload_def content_effects_def)
qed

lemma before_appear_eq:
  assumes "staged st m"
  shows "before_appear m opts st =
     st\<lparr> payload := (payload st)(Suc (modal_cover st m) :=
           content_payload opts (payload st (Suc (modal_cover st m)))),
         children := (children st)(modal_cover st m :=
           children st (modal_cover st m) @ [Suc (modal_cover st m)]),
         parentNode := (parentNode st)(Suc (modal_cover st m) := Some (modal_cover st m)),
         onclick := (if closeOnCoverClick opts = Some False then onclick st
                     else (onclick st)(modal_cover st m := Some (CoverClick m))),
         modal_animationTime := (modal_animationTime st)(m := stored_animationTime opts),
         journal := journal st @ content_effects opts (Suc (modal_cover st m)) @
                    [Inserted (modal_cover st m) (Suc (modal_cover st m))] @
                    onclick_effects opts m (modal_cover st m) \<rparr>"
proof -
  from assms have inv: "page_inv st" and n: "nextModal st = Suc m"
    and l: "parentNode st (modal_content st m) = None" "children st (modal_content st m) = []"
    by (simp_all add: staged_def)
  from staged_region[OF inv n] obtain r where mi: "modal_inv st r m" by blast
  note md = modal_invD[OF mi]
  let ?st2 = "assign_innerHTML m opts (assign_textContent m opts st)"
  note a = assigned_eq[OF l(2), of opts]
  have p: "place_content m ?st2 =
      ?st2\<lparr> children := (children ?st2)(modal_cover st m :=
                 children st (modal_cover st m) @ [Suc (modal_cover st m)]),
             parentNode := (parentNode st)(Suc (modal_cover st m) := Some (modal_cover st m)),
             journal := journal ?st2 @ [Inserted (modal_cover st m) (Suc (modal_cover st m))] \<rparr>"
    using l(1) md(3) by (simp add: place_content_def a appendChild_loose)
  show ?thesis
    unfolding before_appear_def p
    by (cases "closeOnCoverClick opts")
       (simp_all add: a md(3) establish_onclick_def default_animationTime_def
          stored_animationTime_def onclick_effects_def)
qed


lemma built_eq:
  assumes st: "staged st m"
    and ok: "\<not> (innerHTML opts \<noteq> None \<and> textContent opts \<noteq> None)"
    and w: "window_modalRegion st = Some r"
  shows "snd (Modal_body m opts st) =
     st\<lparr> payload := (payload st)(Suc (modal_cover st m) :=
           content_payload opts (payload st (Suc (modal_cover st m)))),
         children := (children st)(modal_cover st m :=
             children st (modal_cover st m) @ [Suc (modal_cover st m)],
           region_element st r := children st (region_element st r) @ [modal_cover st m]),
         parentNode := (parentNode st)(Suc (modal_cover st m) := Some (modal_cover st m),
           modal_cover st m := Some (region_element st r)),
         onclick := (if closeOnCoverClick opts = Some False then onclick st
                     else (onclick st)(modal_cover st m := Some (CoverClick m))),
         modal_animationTime := (modal_animationTime st)(m := stored_animationTime opts),
         style_opacity := (if positive (stored_animationTime opts)
                           then (style_opacity st)(modal_cover st m := Some ''0'')
                           else style_opacity st),
         style_transition := (if positive (stored_animationTime opts)
                           then (style_transition st)(modal_cover st m :=
                             Some (''opacity '' @ string_of_nat (nat (the (stored_animationTime opts)))
                                   @ ''ms ease''))
                           else style_transition st),
         promises := promises st @ [if positive (stored_animationTime opts)
                                    then Pending [] else Fulfilled],
         timers := (if positive (stored_animationTime opts)
                    then timers st @ [(now st, AppearTick m (length (promises st)))]
                    else timers st),
         journal := journal st @ content_effects opts (Suc (modal_cover st m)) @
                    [Inserted (modal_cover st m) (Suc (modal_cover st m))] @
                    onclick_effects opts m (modal_cover st m) @
                    appear_effects
                      (st\<lparr> modal_animationTime :=
                            (modal_animationTime st)(m := stored_animationTime opts) \<rparr>) m @
                    [Inserted (region_element st r) (modal_cover st m)] \<rparr>"
proof -
  let ?b = "before_appear m opts st"
  let ?a = "snd (appear m ?b)"
  let ?cov = "modal_cover st m"
  from st have inv: "page_inv st" and n: "nextModal st = Suc m"
    and l: "parentNode st ?cov = None"
    by (simp_all add: staged_def)
  have mi: "modal_inv st r m"
    using region_invD(8)[OF page_invD(4)[OF inv w]] n by simp
  note md = modal_invD[OF mi]
  note b = before_appear_eq[OF st, of opts]
  have pa: "placed ?a m" by (intro placed_appear placed_before_appear st)
  then have la: "parentNode ?a (modal_cover ?a m) = None" by (simp add: placed_def)
  have t: "modal_animationTime ?b m = stored_animationTime opts" "modal_cover ?b m = ?cov"
    by (simp_all add: b)
  have push: "push_into_region m ?a =
      ?a\<lparr> children := (children ?a)(region_element st r := children ?a (region_element st r) @ [?cov]),
            parentNode := (parentNode ?a)(?cov := Some (region_element st r)),
            journal := journal ?a @ [Inserted (region_element st r) ?cov] \<rparr>"
    unfolding push_into_region_def appendChild_loose[OF la]
    by (simp add: appear_frame md(1)) (simp add: b md(1))
  show ?thesis
  proof (cases "positive (stored_animationTime opts)")
    case True
    then have "positive (modal_animationTime ?b m)" by (simp add: t)
    note ap = appear_positive[OF this]
    show ?thesis
      unfolding Modal_body_success[OF ok] snd_conv push
      using True md(2) by (simp add: ap t appear_effects_def) (simp add: b)
  next
    case False
    then have "\<not> positive (modal_animationTime ?b m)" by (simp add: t)
    note ap = appear_instant[OF this]
    show ?thesis
      unfolding Modal_body_success[OF ok] snd_conv push
      using False md(2) by (simp add: ap t appear_effects_def) (simp add: b)
  qed
qed

subsection \<open>What the field initializers leave behind\<close>

lemma Modal_fields_new:
  assumes inv: "page_inv st"
  shows "nextModal (snd (Modal_fields st)) = Suc (nextModal st)"
    and "nextNode st \<le> modal_cover (snd (Modal_fields st)) (nextModal st)"
    and "nextNode (snd (Modal_fields st)) = Suc (Suc (modal_cover (snd (Modal_fields st)) (nextModal st)))"
    and "modal_content (snd (Modal_fields st)) (nextModal st)
           = Suc (modal_cover (snd (Modal_fields st)) (nextModal st))"
    and "modal_animationTime (snd (Modal_fields st)) (nextModal st) = None"
    and "payload (snd (Modal_fields st)) (Suc (modal_cover (snd (Modal_fields st)) (nextModal st))) = Empty"
    and "children (snd (Modal_fields st)) (modal_cover (snd (Modal_fields st)) (nextModal st)) = []"
    and "children (snd (Modal_fields st)) (Suc (modal_cover (snd (Modal_fields st)) (nextModal st))) = []"
    and "parentNode (snd (Modal_fields st)) (modal_cover (snd (Modal_fields st)) (nextModal st)) = None"
    and "parentNode (snd (Modal_fields st)) (Suc (modal_cover (snd (Modal_fields st)) (nextModal st))) = None"
    and "onclick (snd (Modal_fields st)) (modal_cover (snd (Modal_fields st)) (nextModal st)) = None"
    and "style_opacity (snd (Modal_fields st)) (modal_cover (snd (Modal_fields st)) (nextModal st)) = None"
    and "style_transition (snd (Modal_fields st)) (modal_cover (snd (Modal_fields st)) (nextModal st)) = None"
  using page_invD(1)[OF inv]
  by (cases "window_modalRegion st"; simp add: Modal_fields_None Modal_fields_Some)+

lemma Modal_fields_old:
  assumes inv: "page_inv st"
  shows "timers (snd (Modal_fields st)) = timers st"
    and "promises (snd (Modal_fields st)) = promises st"
    and "microtasks (snd (Modal_fields st)) = microtasks st"
    and "now (snd (Modal_fields st)) = now st"
    and "body (snd (Modal_fields st)) = body st"
    and "\<And>y. y < nextModal st \<Longrightarrow> modal_cover (snd (Modal_fields st)) y = modal_cover st y"
    and "\<And>y. y < nextModal st \<Longrightarrow> modal_content (snd (Modal_fields st)) y = modal_content st y"
    and "\<And>y. y < nextModal st \<Longrightarrow> modal_region (snd (Modal_fields st)) y = modal_region st y"
    and "\<And>y. y < nextModal st \<Longrightarrow>
           modal_animationTime (snd (Modal_fields st)) y = modal_animationTime st y"
    and "\<And>n. n < nextNode st \<Longrightarrow> onclick (snd (Modal_fields st)) n = onclick st n"
    and "\<And>n. n < nextNode st \<Longrightarrow> modal (snd (Modal_fields st)) n = modal st n"
    and "\<And>n. n < nextNode st \<Longrightarrow> payload (snd (Modal_fields st)) n = payload st n"
    and "\<And>n. n < nextNode st \<Longrightarrow> style_opacity (snd (Modal_fields st)) n = style_opacity st n"
    and "\<And>n. n < nextNode st \<Longrightarrow> style_transition (snd (Modal_fields st)) n = style_transition st n"
    and "\<And>n. n < nextNode st \<Longrightarrow> parentNode (snd (Modal_fields st)) n = parentNode st n"
    and "\<And>n. n < nextNode st \<Longrightarrow> n \<noteq> body st \<Longrightarrow>
           children (snd (Modal_fields st)) n = children st n"
  using page_invD(1)[OF inv]
  by (cases "window_modalRegion st"; simp add: Modal_fields_None Modal_fields_Some)+

lemma Modal_fields_region_Some:
  assumes "window_modalRegion st = Some r"
  shows "window_modalRegion (snd (Modal_fields st)) = Some r"
    and "nextRegion (snd (Modal_fields st)) = nextRegion st"
    and "region_element (snd (Modal_fields st)) = region_element st"
    and "\<And>n. n < nextNode st \<Longrightarrow> children (snd (Modal_fields st)) n = children st n"
    and "modal_cover (snd (Modal_fields st)) (nextModal st) = nextNode st"
  unfolding Modal_fields_Some[OF assms] using assms by simp_all

lemma Modal_fields_region_None:
  assumes "page_inv st" and "window_modalRegion st = None"
  shows "window_modalRegion (snd (Modal_fields st)) = Some 0"
    and "region_element (snd (Modal_fields st)) 0 = nextNode st"
    and "children (snd (Modal_fields st)) (body st) = nextNode st # children st (body st)"
    and "children (snd (Modal_fields st)) (nextNode st) = []"
    and "modal_cover (snd (Modal_fields st)) (nextModal st) = Suc (nextNode st)"
  unfolding Modal_fields_None[OF assms(2) page_invD(1)[OF assms(1)]]
  using page_invD(1,5)[OF assms(1)] assms(2) by simp_all

section \<open>Pages that the program can reach\<close>

lemma initial_page_simps:
  "nextNode (initial_page k) = Suc k"
  "nextModal (initial_page k) = 0"
  "nextRegion (initial_page k) = 0"
  "body (initial_page k) = 0"
  "window_modalRegion (initial_page k) = None"
  "children (initial_page k) 0 = [1 ..< Suc k]"
  "timers (initial_page k) = []"
  "microtasks (initial_page k) = []"
  "promises (initial_page k) = []"
  "now (initial_page k) = 0"
  by (simp_all add: initial_page_def)

lemma reachable_inv: "exec es (initial_page k) = Some st \<Longrightarrow> page_inv st"
  by (rule page_inv_exec[OF page_inv_initial])

lemma region_children:
  assumes "page_inv st" and "window_modalRegion st = Some r"
    and "x \<in> set (children st (region_element st r))"
  obtains y where "y < nextModal st" and "x = modal_cover st y"
    and "parentNode st x = Some (region_element st r)"
proof -
  note rd = region_invD[OF page_invD(4)[OF assms(1,2)]]
  from assms(3) rd(7) have "x \<in> set (covers_in st (region_element st r))" by simp
  then obtain y where "y < nextModal st" "x = modal_cover st y"
    "attached st (region_element st r) y"
    by (auto simp: covers_in_def)
  then show ?thesis using that by (simp add: attached_def)
qed

lemma region_children_old:
  assumes "page_inv st" and "window_modalRegion st = Some r"
    and "x \<in> set (children st (region_element st r))"
  shows "x < nextNode st"
proof -
  from region_children[OF assms] obtain y where y: "y < nextModal st" "x = modal_cover st y"
    by blast
  from modal_invD(4)[OF region_invD(8)[OF page_invD(4)[OF assms(1,2)] y(1)]] y(2)
  show ?thesis by simp
qed

lemma modals_eq_attached:
  assumes "page_inv st" and "window_modalRegion st = Some r"
  shows "ModalRegion_modals st r =
           map Some (filter (attached st (region_element st r)) [0 ..< nextModal st])"
proof -
  note rd = region_invD[OF page_invD(4)[OF assms]]
  have "map (modal st) (map (modal_cover st) (filter (attached st (region_element st r)) [0 ..< nextModal st]))
      = map Some (filter (attached st (region_element st r)) [0 ..< nextModal st])"
    unfolding map_map
    by (rule map_cong[OF refl]) (simp add: modal_invD(5)[OF rd(8)])
  then show ?thesis by (simp add: ModalRegion_modals_def rd(7) covers_in_def)
qed

subsection \<open>A successful construction, seen from the page before it\<close>

lemma constructor_success:
  assumes "\<not> (innerHTML opts \<noteq> None \<and> textContent opts \<noteq> None)"
  shows "fst (Modal_constructor opts st) = Inr (nextModal st)"
  unfolding Modal_constructor_eq Modal_body_success[OF assms] by simp

lemma constructor_Inr:
  assumes "fst (Modal_constructor opts st) = Inr m"
  shows "\<not> (innerHTML opts \<noteq> None \<and> textContent opts \<noteq> None)" and "m = nextModal st"
proof -
  show ok: "\<not> (innerHTML opts \<noteq> None \<and> textContent opts \<noteq> None)"
  proof
    assume "innerHTML opts \<noteq> None \<and> textContent opts \<noteq> None"
    then have "fst (Modal_constructor opts st) = Inl ConfigurationError"
      by (simp add: Modal_constructor_eq Modal_body_failure)
    with assms show False by simp
  qed
  from constructor_success[OF ok, of st] assms show "m = nextModal st" by simp
qed

text \<open>The page after the body of the constructor has run on modal \<open>m\<close> of region
  \<open>r\<close>, written over the page that the field initializers left.\<close>

definition built :: "nat \<Rightarrow> nat \<Rightarrow> ModalOptions \<Rightarrow> page \<Rightarrow> page" where
  "built m r opts st =
     st\<lparr> payload := (payload st)(Suc (modal_cover st m) :=
           content_payload opts (payload st (Suc (modal_cover st m)))),
         children := (children st)(modal_cover st m :=
             children st (modal_cover st m) @ [Suc (modal_cover st m)],
           region_element st r := children st (region_element st r) @ [modal_cover st m]),
         parentNode := (parentNode st)(Suc (modal_cover st m) := Some (modal_cover st m),
           modal_cover st m := Some (region_element st r)),
         onclick := (if closeOnCoverClick opts = Some False then onclick st
                     else (onclick st)(modal_cover st m := Some (CoverClick m))),
         modal_animationTime := (modal_animationTime st)(m := stored_animationTime opts),
         style_opacity := (if positive (stored_animationTime opts)
                           then (style_opacity st)(modal_cover st m := Some ''0'')
                           else style_opacity st),
         style_transition := (if positive (stored_animationTime opts)
                           then (style_transition st)(modal_cover st m :=
                             Some (''opacity '' @ string_of_nat (nat (the (stored_animationTime opts)))
                                   @ ''ms ease''))
                           else style_transition st),
         promises := promises st @ [if positive (stored_animationTime opts)
                                    then Pending [] else Fulfilled],
         timers := (if positive (stored_animationTime opts)
                    then timers st @ [(now st, AppearTick m (length (promises st)))]
                    else timers st),
         journal := journal st @ content_effects opts (Suc (modal_cover st m)) @
                    [Inserted (modal_cover st m) (Suc (modal_cover st m))] @
                    onclick_effects opts m (modal_cover st m) @
                    appear_effects
                      (st\<lparr> modal_animationTime :=
                            (modal_animationTime st)(m := stored_animationTime opts) \<rparr>) m @
                    [Inserted (region_element st r) (modal_cover st m)] \<rparr>"

lemma built_journal:
  "journal (built m r opts st) =
     journal st @ content_effects opts (Suc (modal_cover st m)) @
     [Inserted (modal_cover st m) (Suc (modal_cover st m))] @
     onclick_effects opts m (modal_cover st m) @
     appear_effects
       (st\<lparr> modal_animationTime := (modal_animationTime st)(m := stored_animationTime opts) \<rparr>) m @
     [Inserted (region_element st r) (modal_cover st m)]"
  by (simp add: built_def)

lemma built_frame:
  "nextNode (built m r opts st) = nextNode st"
  "modal (built m r opts st) = modal st"
  "body (built m r opts st) = body st"
  "window_modalRegion (built m r opts st) = window_modalRegion st"
  "nextRegion (built m r opts st) = nextRegion st"
  "region_element (built m r opts st) = region_element st"
  "nextModal (built m r opts st) = nextModal st"
  "modal_region (built m r opts st) = modal_region st"
  "modal_cover (built m r opts st) = modal_cover st"
  "modal_content (built m r opts st) = modal_content st"
  "microtasks (built m r opts st) = microtasks st"
  "now (built m r opts st) = now st"
  "tagName (built m r opts st) = tagName st"
  "attributes (built m r opts st) = attributes st"
  by (simp_all add: built_def)

lemma built_fields:
  "payload (built m r opts st) = (payload st)(Suc (modal_cover st m) :=
           content_payload opts (payload st (Suc (modal_cover st m))))"
  "children (built m r opts st) = (children st)(modal_cover st m :=
             children st (modal_cover st m) @ [Suc (modal_cover st m)],
           region_element st r := children st (region_element st r) @ [modal_cover st m])"
  "parentNode (built m r opts st) = (parentNode st)(Suc (modal_cover st m) := Some (modal_cover st m),
           modal_cover st m := Some (region_element st r))"
  "onclick (built m r opts st) = (if closeOnCoverClick opts = Some False then onclick st
                     else (onclick st)(modal_cover st m := Some (CoverClick m)))"
  "modal_animationTime (built m r opts st) = (modal_animationTime st)(m := stored_animationTime opts)"
  "style_opacity (built m r opts st) = (if positive (stored_animationTime opts)
                           then (style_opacity st)(modal_cover st m := Some ''0'')
                           else style_opacity st)"
  "style_transition (built m r opts st) = (if positive (stored_animationTime opts)
                           then (style_transition st)(modal_cover st m :=
                             Some (''opacity '' @ string_of_nat (nat (the (stored_animationTime opts)))
                                   @ ''ms ease''))
                           else style_transition st)"
  "promises (built m r opts st) = promises st @ [if positive (stored_animationTime opts)
                                    then Pending [] else Fulfilled]"
  "timers (built m r opts st) = (if positive (stored_animationTime opts)
                    then timers st @ [(now st, AppearTick m (length (promises st)))]
                    else timers st)"
  by (simp_all add: built_def)

lemma constructed:
  assumes inv: "page_inv st"
    and ok: "\<not> (innerHTML opts \<noteq> None \<and> textContent opts \<noteq> None)"
  obtains r where "window_modalRegion (snd (Modal_fields st)) = Some r"
    and "modal_inv (snd (Modal_fields st)) r (nextModal st)"
    and "snd (Modal_constructor opts st) = built (nextModal st) r opts (snd (Modal_fields st))"
proof -
  let ?st1 = "snd (Modal_fields st)"
  have sg: "staged ?st1 (nextModal st)" by (rule Modal_fields_staged[OF inv])
  then have inv1: "page_inv ?st1" and n1: "nextModal ?st1 = Suc (nextModal st)"
    by (simp_all add: staged_def)
  from staged_region[OF inv1 n1] obtain r where w: "window_modalRegion ?st1 = Some r"
    and mi: "modal_inv ?st1 r (nextModal st)" by blast
  have "snd (Modal_constructor opts st) = built (nextModal st) r opts ?st1"
    unfolding Modal_constructor_eq built_eq[OF sg ok w] built_def by (rule refl)
  with w mi show ?thesis by (rule that)
qed

lemma constructor_animationTime:
  assumes "page_inv st" and "\<not> (innerHTML opts \<noteq> None \<and> textContent opts \<noteq> None)"
  shows "modal_animationTime (snd (Modal_constructor opts st)) (nextModal st)
           = stored_animationTime opts"
proof -
  from constructed[OF assms] obtain r where
    "snd (Modal_constructor opts st) = built (nextModal st) r opts (snd (Modal_fields st))"
    by blast
  then show ?thesis by (simp add: built_fields)
qed

section \<open>What later events leave alone\<close>

text \<open>
  Objects and nodes that exist are never re-initialised: the body, the published region
  and its element, the fields of every modal, and the handler, back-reference and payload
  of every node stay as they are; counters and the clock only grow.
\<close>

definition keeps :: "page \<Rightarrow> page \<Rightarrow> bool" where
  "keeps st st' \<longleftrightarrow>
     body st' = body st \<and>
     nextNode st \<le> nextNode st' \<and>
     nextModal st \<le> nextModal st' \<and>
     length (promises st) \<le> length (promises st') \<and>
     now st \<le> now st' \<and>
     (\<forall>r. window_modalRegion st = Some r \<longrightarrow>
          window_modalRegion st' = Some r \<and> region_element st' r = region_element st r) \<and>
     (\<forall>m < nextModal st.
          modal_cover st' m = modal_cover st m \<and>
          modal_content st' m = modal_content st m \<and>
          modal_region st' m = modal_region st m \<and>
          modal_animationTime st' m = modal_animationTime st m) \<and>
     (\<forall>n < nextNode st.
          onclick st' n = onclick st n \<and>
          modal st' n = modal st n \<and>
          payload st' n = payload st n)"

lemma keeps_refl: "keeps st st"
  by (simp add: keeps_def)

lemma keeps_trans:
  assumes "keeps a b" and "keeps b c"
  shows "keeps a c"
  unfolding keeps_def
proof (intro conjI allI impI)
  show "body c = body a" "nextNode a \<le> nextNode c" "nextModal a \<le> nextModal c"
    "length (promises a) \<le> length (promises c)" "now a \<le> now c"
    using assms by (simp_all add: keeps_def)
next
  fix r assume "window_modalRegion a = Some r"
  then have "window_modalRegion b = Some r \<and> region_element b r = region_element a r"
    using assms(1) by (simp add: keeps_def)
  then show "window_modalRegion c = Some r" "region_element c r = region_element a r"
    using assms(2) by (simp_all add: keeps_def)
next
  fix m assume m: "m < nextModal a"
  then have "m < nextModal b" using assms(1) by (simp add: keeps_def)
  with m show "modal_cover c m = modal_cover a m" "modal_content c m = modal_content a m"
    "modal_region c m = modal_region a m" "modal_animationTime c m = modal_animationTime a m"
    using assms by (simp_all add: keeps_def)
next
  fix n assume n: "n < nextNode a"
  then have "n < nextNode b" using assms(1) by (simp add: keeps_def)
  with n show "onclick c n = onclick a n" "modal c n = modal a n" "payload c n = payload a n"
    using assms by (simp_all add: keeps_def)
qed

lemma keeps_frame:
  assumes "body st' = body st" "nextNode st' = nextNode st" "nextModal st' = nextModal st"
    "length (promises st) \<le> length (promises st')" "now st \<le> now st'"
    "window_modalRegion st' = window_modalRegion st" "region_element st' = region_element st"
    "modal_cover st' = modal_cover st" "modal_content st' = modal_content st"
    "modal_region st' = modal_region st" "modal_animationTime st' = modal_animationTime st"
    "onclick st' = onclick st" "modal st' = modal st" "payload st' = payload st"
  shows "keeps st st'"
  using assms(4,5) by (simp add: keeps_def assms(1-3,6-))

lemma keeps_close: "keeps st (snd (close m st))"
proof (rule keeps_frame)
  show "length (promises st) \<le> length (promises (snd (close m st)))"
    by (cases "positive (modal_animationTime st m)") (simp_all add: close_positive close_instant)
qed (simp_all only: close_frame order_refl)

lemma keeps_run_reaction: "keeps st (run_reaction t (st\<lparr> microtasks := ts \<rparr>))"
  by (rule keeps_frame) (simp_all add: run_reaction_frame)

lemma keeps_drain: "keeps st (drain st)"
proof (rule drain_preserves[where I = "keeps st"])
  show "keeps st st" by (rule keeps_refl)
  show "keeps st (run_reaction t (s\<lparr> microtasks := ts \<rparr>))" if "keeps st s" for s t ts
    using that keeps_run_reaction by (rule keeps_trans)
qed

lemma run_timer_frame:
  "nextNode (run_timer t st) = nextNode st"
  "parentNode (run_timer t st) = parentNode st"
  "children (run_timer t st) = children st"
  "modal (run_timer t st) = modal st"
  "body (run_timer t st) = body st"
  "window_modalRegion (run_timer t st) = window_modalRegion st"
  "nextRegion (run_timer t st) = nextRegion st"
  "region_element (run_timer t st) = region_element st"
  "nextModal (run_timer t st) = nextModal st"
  "modal_region (run_timer t st) = modal_region st"
  "modal_cover (run_timer t st) = modal_cover st"
  "modal_content (run_timer t st) = modal_content st"
  "modal_animationTime (run_timer t st) = modal_animationTime st"
  "onclick (run_timer t st) = onclick st"
  "payload (run_timer t st) = payload st"
  "timers (run_timer t st) = timers st"
  "now (run_timer t st) = now st"
  "length (promises (run_timer t st)) = length (promises st)"
  by (cases t; simp add: resolve_frame)+

lemma keeps_fire: "keeps st (fire k st)"
proof -
  let ?st0 = "drain st"
  let ?c = "?st0\<lparr> timers := take k (timers ?st0) @ drop (Suc k) (timers ?st0) \<rparr>"
  have "keeps ?st0 (run_timer (snd (timers ?st0 ! k)) ?c)"
    by (rule keeps_frame) (simp_all add: run_timer_frame)
  then have "keeps ?st0 (drain (run_timer (snd (timers ?st0 ! k)) ?c))"
    using keeps_drain by (rule keeps_trans)
  with keeps_drain[of st] have "keeps st (drain (run_timer (snd (timers ?st0 ! k)) ?c))"
    by (rule keeps_trans)
  then show ?thesis using keeps_drain[of st] by (simp add: fire_def Let_def)
qed

lemma keeps_Modal_fields:
  assumes inv: "page_inv st"
  shows "keeps st (snd (Modal_fields st))"
  unfolding keeps_def
proof (intro conjI allI impI)
  note new = Modal_fields_new[OF inv]
  note old = Modal_fields_old[OF inv]
  show "body (snd (Modal_fields st)) = body st" by (rule old)
  show "nextNode st \<le> nextNode (snd (Modal_fields st))" using new(2,3) by simp
  show "nextModal st \<le> nextModal (snd (Modal_fields st))" using new(1) by simp
  show "length (promises st) \<le> length (promises (snd (Modal_fields st)))" by (simp add: old)
  show "now st \<le> now (snd (Modal_fields st))" by (simp add: old)
  show "window_modalRegion (snd (Modal_fields st)) = Some r"
    "region_element (snd (Modal_fields st)) r = region_element st r"
    if "window_modalRegion st = Some r" for r
    using Modal_fields_region_Some[OF that] by simp_all
  show "modal_cover (snd (Modal_fields st)) m = modal_cover st m"
    "modal_content (snd (Modal_fields st)) m = modal_content st m"
    "modal_region (snd (Modal_fields st)) m = modal_region st m"
    "modal_animationTime (snd (Modal_fields st)) m = modal_animationTime st m"
    if "m < nextModal st" for m
    using that by (simp_all add: old)
  show "onclick (snd (Modal_fields st)) n = onclick st n"
    "modal (snd (Modal_fields st)) n = modal st n"
    "payload (snd (Modal_fields st)) n = payload st n"
    if "n < nextNode st" for n
    using that by (simp_all add: old)
qed

lemma keeps_Modal_constructor:
  assumes inv: "page_inv st"
  shows "keeps st (snd (Modal_constructor opts st))"
proof (cases "innerHTML opts \<noteq> None \<and> textContent opts \<noteq> None")
  case True
  then show ?thesis
    by (simp add: Modal_constructor_eq Modal_body_failure keeps_Modal_fields[OF inv])
next
  case False
  let ?st1 = "snd (Modal_fields st)"
  let ?m = "nextModal st"
  from constructed[OF inv False] obtain r where
    b: "snd (Modal_constructor opts st) = built ?m r opts ?st1" by blast
  note new = Modal_fields_new[OF inv]
  note k = keeps_Modal_fields[OF inv, unfolded keeps_def]
  show ?thesis
    unfolding keeps_def b
  proof (intro conjI allI impI)
    show "body (built ?m r opts ?st1) = body st"
      "nextNode st \<le> nextNode (built ?m r opts ?st1)"
      "nextModal st \<le> nextModal (built ?m r opts ?st1)"
      "length (promises st) \<le> length (promises (built ?m r opts ?st1))"
      "now st \<le> now (built ?m r opts ?st1)"
      using k by (simp_all add: built_frame built_fields)
  next
    fix r' assume "window_modalRegion st = Some r'"
    then show "window_modalRegion (built ?m r opts ?st1) = Some r'"
      "region_element (built ?m r opts ?st1) r' = region_element st r'"
      using k by (simp_all add: built_frame)
  next
    fix y assume "y < nextModal st"
    then show "modal_cover (built ?m r opts ?st1) y = modal_cover st y"
      "modal_content (built ?m r opts ?st1) y = modal_content st y"
      "modal_region (built ?m r opts ?st1) y = modal_region st y"
      "modal_animationTime (built ?m r opts ?st1) y = modal_animationTime st y"
      using k by (simp_all add: built_frame built_fields)
  next
    fix n assume n: "n < nextNode st"
    with new(2) have "n \<noteq> modal_cover ?st1 ?m" "n \<noteq> Suc (modal_cover ?st1 ?m)" by simp_all
    with n show "onclick (built ?m r opts ?st1) n = onclick st n"
      "modal (built ?m r opts ?st1) n = modal st n"
      "payload (built ?m r opts ?st1) n = payload st n"
      using k by (simp_all add: built_frame built_fields)
  qed
qed

lemma keeps_step:
  assumes inv: "page_inv st" and s: "step e st = Some st'"
  shows "keeps st st'"
proof (cases e)
  case (New opts)
  with s keeps_Modal_constructor[OF inv, of opts] show ?thesis by auto
next
  case (Close m)
  with s keeps_close[of st m] keeps_refl[of st] show ?thesis by (auto split: if_splits)
next
  case (Click m t)
  show ?thesis
  proof (cases "m < nextModal st \<and> t < nextNode st")
    case True
    with s Click click_cover_cases[OF inv, of m t] keeps_close[of st m] keeps_refl[of st]
    show ?thesis by auto
  next
    case False
    with s Click keeps_refl[of st] show ?thesis by auto
  qed
next
  case (Tick dt)
  have "keeps st (st\<lparr> now := now st + dt \<rparr>)" by (rule keeps_frame) simp_all
  with s Tick show ?thesis by auto
next
  case Checkpoint
  with s keeps_drain[of st] show ?thesis by auto
next
  case (Fire k)
  with s keeps_fire[of st k] show ?thesis by auto
qed

lemma keeps_exec:
  assumes "page_inv st" and "exec es st = Some st'"
  shows "keeps st st'"
proof -
  have "page_inv st' \<and> keeps st st'"
  proof (rule exec_preserves[where I = "\<lambda>s. page_inv s \<and> keeps st s", OF _ assms(2)])
    show "page_inv st \<and> keeps st st" using assms(1) keeps_refl by simp
    show "page_inv s' \<and> keeps st s'" if "page_inv s \<and> keeps st s" "step e s = Some s'" for e s s'
      using that page_inv_step[of s e s'] keeps_step[of s e s'] keeps_trans[of st s s'] by blast
  qed
  then show ?thesis by simp
qed

lemma constructor_nextModal:
  assumes inv: "page_inv st"
  shows "nextModal (snd (Modal_constructor opts st)) = Suc (nextModal st)"
proof (cases "innerHTML opts \<noteq> None \<and> textContent opts \<noteq> None")
  case True
  then show ?thesis
    by (simp add: Modal_constructor_eq Modal_body_failure Modal_fields_new(1)[OF inv])
next
  case False
  from constructed[OF inv False] obtain r where
    "snd (Modal_constructor opts st) = built (nextModal st) r opts (snd (Modal_fields st))" by blast
  then show ?thesis by (simp add: built_frame Modal_fields_new(1)[OF inv])
qed

lemma constructor_region:
  assumes inv: "page_inv st"
  shows "window_modalRegion (snd (Modal_constructor opts st)) = Some 0"
    and "modal_region (snd (Modal_constructor opts st)) (nextModal st) = 0"
proof -
  let ?st' = "snd (Modal_constructor opts st)"
  have inv': "page_inv ?st'" by (rule page_inv_Modal_constructor[OF inv])
  from staged_region[OF inv' constructor_nextModal[OF inv]]
  obtain r where w: "window_modalRegion ?st' = Some r" and ri: "region_inv ?st' r"
    and mi: "modal_inv ?st' r (nextModal st)" by blast
  from region_invD(1)[OF ri] w show "window_modalRegion ?st' = Some 0" by simp
  from region_invD(1)[OF ri] modal_invD(1)[OF mi]
  show "modal_region ?st' (nextModal st) = 0" by simp
qed

lemma close_changes: "snd (close m st) \<noteq> st"
proof
  assume "snd (close m st) = st"
  then have "length (promises (snd (close m st))) = length (promises st)" by simp
  then show False
    by (cases "positive (modal_animationTime st m)") (simp_all add: close_positive close_instant)
qed

section \<open>Closing a modal\<close>

subsection \<open>Promises under resolution\<close>

lemma resolve_promises_nth:
  "i < length (promises st) \<Longrightarrow>
   promises (resolve p st) ! i = (if i = p then Fulfilled else promises st ! i)"
  by (auto simp: resolve_def split: promise.splits)

lemma resolve_microtasks:
  "microtasks (resolve p st) =
     microtasks st @ (if p < length (promises st) then reactions_of (promises st ! p) else [])"
  by (auto simp: resolve_def split: promise.splits)

lemma resolve_reactions_nth:
  assumes "i < length (promises st)" and "x \<in> set (reactions_of (promises (resolve p st) ! i))"
  shows "x \<in> set (reactions_of (promises st ! i))"
  using assms by (simp add: resolve_promises_nth split: if_splits)

subsection \<open>A cover that is detached stays detached\<close>

lemma dom_remove_parentNode:
  "parentNode (dom_remove c st) n = (if n = c then None else parentNode st n)"
  by (simp add: dom_remove_def split: option.splits)

lemma run_reaction_parentNode:
  "parentNode st n = None \<Longrightarrow> parentNode (run_reaction t st) n = None"
  by (cases t) (simp add: resolve_frame dom_remove_parentNode)

lemma constructor_parentNode_old:
  assumes inv: "page_inv st" and n: "n < nextNode st"
  shows "parentNode (snd (Modal_constructor opts st)) n = parentNode st n"
proof (cases "innerHTML opts \<noteq> None \<and> textContent opts \<noteq> None")
  case True
  then show ?thesis
    by (simp add: Modal_constructor_eq Modal_body_failure Modal_fields_old(15)[OF inv n])
next
  case False
  from constructed[OF inv False] obtain r where
    b: "snd (Modal_constructor opts st) = built (nextModal st) r opts (snd (Modal_fields st))"
    by blast
  from n Modal_fields_new(2)[OF inv]
  have "n \<noteq> modal_cover (snd (Modal_fields st)) (nextModal st)"
    "n \<noteq> Suc (modal_cover (snd (Modal_fields st)) (nextModal st))" by simp_all
  then show ?thesis
    unfolding b by (simp add: built_fields Modal_fields_old(15)[OF inv n])
qed

lemma cover_old:
  assumes "page_inv st" and "m < nextModal st"
  shows "modal_cover st m < nextNode st"
proof -
  from assms(2) page_invD(5)[OF assms(1)] obtain r where w: "window_modalRegion st = Some r"
    by (cases "window_modalRegion st") auto
  from modal_invD(4)[OF region_invD(8)[OF page_invD(4)[OF assms(1) w] assms(2)]]
  show ?thesis by simp
qed

lemma drain_parentNode:
  "parentNode st n = None \<Longrightarrow> parentNode (drain st) n = None"
  by (rule drain_preserves[where I = "\<lambda>s. parentNode s n = None"])
     (simp_all add: run_reaction_parentNode)

lemma fire_parentNode:
  assumes "parentNode st n = None"
  shows "parentNode (fire k st) n = None"
proof -
  let ?st0 = "drain st"
  have 0: "parentNode ?st0 n = None" by (rule drain_parentNode[OF assms])
  have "parentNode (run_timer (snd (timers ?st0 ! k))
      (?st0\<lparr> timers := take k (timers ?st0) @ drop (Suc k) (timers ?st0) \<rparr>)) n = None"
    using 0 by (simp add: run_timer_frame)
  then have "parentNode (drain (run_timer (snd (timers ?st0 ! k))
      (?st0\<lparr> timers := take k (timers ?st0) @ drop (Suc k) (timers ?st0) \<rparr>))) n = None"
    by (rule drain_parentNode)
  with 0 show ?thesis by (simp add: fire_def Let_def)
qed

lemma detached_step:
  assumes inv: "page_inv st" and m: "m < nextModal st"
    and d: "parentNode st (modal_cover st m) = None" and s: "step e st = Some st'"
  shows "parentNode st' (modal_cover st' m) = None"
proof -
  from keeps_step[OF inv s] m have c: "modal_cover st' m = modal_cover st m"
    by (simp add: keeps_def)
  have "parentNode st' (modal_cover st m) = None"
  proof (cases e)
    case (New opts)
    with s constructor_parentNode_old[OF inv cover_old[OF inv m], of opts] d
    show ?thesis by auto
  next
    case (Close m')
    with s d show ?thesis by (auto simp: close_frame split: if_splits)
  next
    case (Click m' t)
    show ?thesis
    proof (cases "m' < nextModal st \<and> t < nextNode st")
      case True
      with s Click click_cover_cases[OF inv, of m' t] d show ?thesis
        by (auto simp: close_frame)
    next
      case False
      with s Click d show ?thesis by auto
    qed
  next
    case (Tick dt)
    with s d show ?thesis by auto
  next
    case Checkpoint
    with s drain_parentNode[OF d] show ?thesis by auto
  next
    case (Fire k)
    with s fire_parentNode[OF d] show ?thesis by auto
  qed
  with c show ?thesis by simp
qed

lemma detached_exec:
  assumes "page_inv st" and "m < nextModal st"
    and "parentNode st (modal_cover st m) = None" and "exec es st = Some st'"
  shows "parentNode st' (modal_cover st' m) = None"
proof -
  let ?I = "\<lambda>s. page_inv s \<and> m < nextModal s \<and> parentNode s (modal_cover s m) = None"
  have "?I st'"
  proof (rule exec_preserves[where I = ?I, OF _ assms(4)])
    show "?I st" using assms(1-3) by simp
    show "?I s'" if "?I s" "step e s = Some s'" for e s s'
    proof -
      from that(1) have i: "page_inv s" and m: "m < nextModal s"
        and d: "parentNode s (modal_cover s m) = None" by simp_all
      from keeps_step[OF i that(2)] m have "m < nextModal s'" by (simp add: keeps_def)
      with page_inv_step[OF i that(2)] detached_step[OF i m d that(2)] show ?thesis by simp
    qed
  qed
  then show ?thesis by simp
qed

lemma detached_not_listed:
  assumes inv: "page_inv st" and m: "m < nextModal st"
    and d: "parentNode st (modal_cover st m) = None"
  shows "Some m \<notin> set (ModalRegion_modals st (modal_region st m))"
proof -
  from m page_invD(5)[OF inv] obtain r where w: "window_modalRegion st = Some r"
    by (cases "window_modalRegion st") auto
  note md = modal_invD[OF region_invD(8)[OF page_invD(4)[OF inv w] m]]
  have "\<not> attached st (region_element st r) m" using d by (simp add: attached_def)
  then show ?thesis
    unfolding md(1) modals_eq_attached[OF inv w] by auto
qed

subsection \<open>One call of close, followed through the event loop\<close>

text \<open>
  \<open>closing T m p q\<close> follows one call of \<open>close\<close> on modal \<open>m\<close>: \<open>p\<close> is the promise
  of \<open>disappear\<close>, \<open>q\<close> the promise that \<open>close\<close> returned, \<open>T\<close> the time at which the
  timer of \<open>disappear\<close> is due. Only a timer that is due at \<open>T\<close> or later resolves \<open>p\<close>;
  only the reaction of this call resolves \<open>q\<close>, it waits on \<open>p\<close> or (after \<open>T\<close>) in the
  microtask queue, and it removes the cover of \<open>m\<close> first.
\<close>

definition closing :: "nat \<Rightarrow> nat \<Rightarrow> nat \<Rightarrow> nat \<Rightarrow> page \<Rightarrow> bool" where
  "closing T m p q st \<longleftrightarrow>
     p < length (promises st) \<and> q < length (promises st) \<and> m < nextModal st \<and>
     (promises st ! p = Fulfilled \<longrightarrow> T \<le> now st) \<and>
     (promises st ! q = Fulfilled \<longrightarrow>
        T \<le> now st \<and> parentNode st (modal_cover st m) = None) \<and>
     (\<forall>x \<in> set (timers st). timer_promise (snd x) \<noteq> q \<and>
        (timer_promise (snd x) = p \<longrightarrow> T \<le> fst x)) \<and>
     (\<forall>x \<in> set (microtasks st). reaction_promise x \<noteq> p \<and>
        (reaction_promise x = q \<longrightarrow> reaction_modal x = m \<and> T \<le> now st)) \<and>
     (\<forall>i < length (promises st). \<forall>x \<in> set (reactions_of (promises st ! i)).
        reaction_promise x \<noteq> p \<and> (reaction_promise x = q \<longrightarrow> reaction_modal x = m \<and> i = p))"

lemma closingD:
  assumes "closing T m p q st"
  shows "p < length (promises st)" and "q < length (promises st)" and "m < nextModal st"
    and "promises st ! p = Fulfilled \<Longrightarrow> T \<le> now st"
    and "promises st ! q = Fulfilled \<Longrightarrow> T \<le> now st \<and> parentNode st (modal_cover st m) = None"
    and "\<And>x. x \<in> set (timers st) \<Longrightarrow> timer_promise (snd x) \<noteq> q"
    and "\<And>x. x \<in> set (timers st) \<Longrightarrow> timer_promise (snd x) = p \<Longrightarrow> T \<le> fst x"
    and "\<And>x. x \<in> set (microtasks st) \<Longrightarrow> reaction_promise x \<noteq> p"
    and "\<And>x. x \<in> set (microtasks st) \<Longrightarrow> reaction_promise x = q \<Longrightarrow>
           reaction_modal x = m \<and> T \<le> now st"
    and "\<And>i x. i < length (promises st) \<Longrightarrow> x \<in> set (reactions_of (promises st ! i)) \<Longrightarrow>
           reaction_promise x \<noteq> p"
    and "\<And>i x. i < length (promises st) \<Longrightarrow> x \<in> set (reactions_of (promises st ! i)) \<Longrightarrow>
           reaction_promise x = q \<Longrightarrow> reaction_modal x = m \<and> i = p"
  using assms by (simp_all add: closing_def)

lemma closing_resolve:
  assumes c: "closing T m p q st"
    and a: "p' = p \<Longrightarrow> T \<le> now st"
    and b: "p' = q \<Longrightarrow> T \<le> now st \<and> parentNode st (modal_cover st m) = None"
  shows "closing T m p q (resolve p' st)"
  unfolding closing_def resolve_frame
proof (intro conjI ballI allI impI)
  note cd = closingD[OF c]
  show "p < length (promises st)" "q < length (promises st)" "m < nextModal st" by (rule cd)+
  show "T \<le> now st" if "promises (resolve p' st) ! p = Fulfilled"
    using that a cd(4) by (simp add: resolve_promises_nth[OF cd(1)] split: if_splits)
  show "T \<le> now st" "parentNode st (modal_cover st m) = None"
    if "promises (resolve p' st) ! q = Fulfilled"
    using that b cd(5) by (simp_all add: resolve_promises_nth[OF cd(2)] split: if_splits)
  show "timer_promise (snd x) \<noteq> q" if "x \<in> set (timers st)" for x
    using that by (rule cd(6))
  show "T \<le> fst x" if "x \<in> set (timers st)" "timer_promise (snd x) = p" for x
    using that by (rule cd(7))
next
  note cd = closingD[OF c]
  fix x assume x: "x \<in> set (microtasks (resolve p' st))"
  then consider "x \<in> set (microtasks st)"
    | "p' < length (promises st)" "x \<in> set (reactions_of (promises st ! p'))"
    by (auto simp: resolve_microtasks split: if_splits)
  then show "reaction_promise x \<noteq> p"
    using cd(8)[of x] cd(10)[of p' x] by cases simp_all
  assume xq: "reaction_promise x = q"
  from x consider "x \<in> set (microtasks st)"
    | "p' < length (promises st)" "x \<in> set (reactions_of (promises st ! p'))"
    by (auto simp: resolve_microtasks split: if_splits)
  then have "reaction_modal x = m \<and> T \<le> now st"
  proof cases
    case 1
    then show ?thesis using cd(9)[of x] xq by simp
  next
    case 2
    from cd(11)[OF 2 xq] a show ?thesis by simp
  qed
  then show "reaction_modal x = m" "T \<le> now st" by simp_all
next
  note cd = closingD[OF c]
  fix i x assume i: "i < length (promises st)"
    and x: "x \<in> set (reactions_of (promises (resolve p' st) ! i))"
  from resolve_reactions_nth[OF i x] have x': "x \<in> set (reactions_of (promises st ! i))" .
  show "reaction_promise x \<noteq> p" by (rule cd(10)[OF i x'])
  assume "reaction_promise x = q"
  from cd(11)[OF i x' this] show "reaction_modal x = m" "i = p" by simp_all
qed

lemma closing_extend:
  assumes c: "closing T m p q st"
    and ps: "promises st' = promises st @ ps'"
      "\<And>y x. y \<in> set ps' \<Longrightarrow> x \<in> set (reactions_of y) \<Longrightarrow>
         reaction_promise x \<noteq> p \<and> reaction_promise x \<noteq> q"
    and ts: "set (timers st') \<subseteq> set (timers st) \<union> TT"
      "\<And>x. x \<in> TT \<Longrightarrow> timer_promise (snd x) \<noteq> p \<and> timer_promise (snd x) \<noteq> q"
    and ms: "set (microtasks st') \<subseteq> set (microtasks st) \<union> MM"
      "\<And>x. x \<in> MM \<Longrightarrow> reaction_promise x \<noteq> p \<and> reaction_promise x \<noteq> q"
    and mono: "now st \<le> now st'" "nextModal st \<le> nextModal st'"
    and cov: "modal_cover st' m = modal_cover st m"
      "parentNode st (modal_cover st m) = None \<Longrightarrow> parentNode st' (modal_cover st m) = None"
  shows "closing T m p q st'"
  unfolding closing_def
proof (intro conjI ballI allI impI)
  note cd = closingD[OF c]
  show "p < length (promises st')" "q < length (promises st')" using cd(1,2) by (simp_all add: ps(1))
  show "m < nextModal st'" using cd(3) mono(2) by simp
  show "T \<le> now st'" if "promises st' ! p = Fulfilled"
    using that cd(1,4) mono(1) by (simp add: ps(1) nth_append)
  show "T \<le> now st'" "parentNode st' (modal_cover st' m) = None"
    if "promises st' ! q = Fulfilled"
    using that cd(2,5) mono(1) cov by (simp_all add: ps(1) nth_append)
next
  note cd = closingD[OF c]
  fix x assume "x \<in> set (timers st')"
  then consider "x \<in> set (timers st)" | "x \<in> TT" using ts(1) by blast
  then show "timer_promise (snd x) \<noteq> q" using cd(6)[of x] ts(2)[of x] by cases simp_all
  assume xp: "timer_promise (snd x) = p"
  from \<open>x \<in> set (timers st')\<close> consider "x \<in> set (timers st)" | "x \<in> TT" using ts(1) by blast
  then show "T \<le> fst x" using cd(7)[of x] ts(2)[of x] xp by cases simp_all
next
  note cd = closingD[OF c]
  fix x assume x: "x \<in> set (microtasks st')"
  then consider "x \<in> set (microtasks st)" | "x \<in> MM" using ms(1) by blast
  then show "reaction_promise x \<noteq> p" using cd(8)[of x] ms(2)[of x] by cases simp_all
  assume xq: "reaction_promise x = q"
  from x consider "x \<in> set (microtasks st)" | "x \<in> MM" using ms(1) by blast
  then have "reaction_modal x = m \<and> T \<le> now st"
    using cd(9)[of x] ms(2)[of x] xq by cases simp_all
  then show "reaction_modal x = m" "T \<le> now st'" using mono(1) by simp_all
next
  note cd = closingD[OF c]
  fix i x assume i: "i < length (promises st')"
    and x: "x \<in> set (reactions_of (promises st' ! i))"
  have "reaction_promise x \<noteq> p \<and> (reaction_promise x = q \<longrightarrow> reaction_modal x = m \<and> i = p)"
  proof (cases "i < length (promises st)")
    case True
    with x have "x \<in> set (reactions_of (promises st ! i))" by (simp add: ps(1) nth_append)
    with cd(10)[OF True, of x] cd(11)[OF True, of x] show ?thesis by blast
  next
    case False
    with i have "promises st' ! i \<in> set ps'"
      by (simp add: ps(1) nth_append)
    from ps(2)[OF this x] show ?thesis by simp
  qed
  then show "reaction_promise x \<noteq> p" by simp
  assume "reaction_promise x = q"
  with \<open>reaction_promise x \<noteq> p \<and> (reaction_promise x = q \<longrightarrow> reaction_modal x = m \<and> i = p)\<close>
  show "reaction_modal x = m" "i = p" by simp_all
qed

lemma closing_run_reaction:
  assumes c: "closing T m p q st" and mt: "microtasks st = t # ts"
  shows "closing T m p q (run_reaction t (st\<lparr> microtasks := ts \<rparr>))"
proof -
  obtain m' q' where t: "t = CloseThen m' q'" by (cases t)
  note cd = closingD[OF c]
  have tin: "t \<in> set (microtasks st)" by (simp add: mt)
  let ?s1 = "st\<lparr> microtasks := ts \<rparr>"
  let ?s2 = "dom_remove (modal_cover st m') ?s1"
  have f2: "promises ?s2 = promises st" "timers ?s2 = timers st" "microtasks ?s2 = ts"
    "now ?s2 = now st" "nextModal ?s2 = nextModal st" "modal_cover ?s2 = modal_cover st"
    by (simp_all add: dom_remove_def split: option.splits)
  have c2: "closing T m p q ?s2"
    by (rule closing_extend[OF c, where ps' = "[]" and TT = "{}" and MM = "{}"])
       (simp_all add: f2 mt dom_remove_parentNode subset_insertI)
  have "closing T m p q (resolve q' ?s2)"
  proof (rule closing_resolve[OF c2])
    assume "q' = p"
    with cd(8)[OF tin] t show "T \<le> now ?s2" by simp
  next
    assume "q' = q"
    with cd(9)[OF tin] t have mm: "m' = m" and Tn: "T \<le> now st" by simp_all
    show "T \<le> now ?s2 \<and> parentNode ?s2 (modal_cover ?s2 m) = None"
      unfolding f2 using mm Tn by (simp add: dom_remove_parentNode)
  qed
  then show ?thesis by (simp add: t)
qed

lemma closing_drain: "closing T m p q st \<Longrightarrow> closing T m p q (drain st)"
  by (rule drain_preserves[where I = "closing T m p q"]) (simp_all add: closing_run_reaction)

lemma closing_run_timer:
  assumes c: "closing T m p q st" and k: "k < length (timers st)"
    and due: "fst (timers st ! k) \<le> now st"
  shows "closing T m p q (run_timer (snd (timers st ! k))
           (st\<lparr> timers := take k (timers st) @ drop (Suc k) (timers st) \<rparr>))"
proof -
  let ?x = "timers st ! k"
  let ?s1 = "st\<lparr> timers := take k (timers st) @ drop (Suc k) (timers st) \<rparr>"
  note cd = closingD[OF c]
  have xin: "?x \<in> set (timers st)" using k by simp
  have sub: "set (timers ?s1) \<subseteq> set (timers st) \<union> {}"
    using set_take_subset[of k "timers st"] set_drop_subset[of "Suc k" "timers st"] by simp
  have c1: "closing T m p q ?s1"
    by (rule closing_extend[OF c, where ps' = "[]" and TT = "{}" and MM = "{}", OF _ _ sub])
       simp_all
  have a: "T \<le> now st" if "timer_promise (snd ?x) = p"
    using cd(7)[OF xin that] due by simp
  have b: "timer_promise (snd ?x) \<noteq> q" by (rule cd(6)[OF xin])
  show ?thesis
  proof (cases "snd ?x")
    case (AppearTick m' p')
    let ?s2 = "?s1\<lparr> style_opacity := (style_opacity ?s1)(modal_cover ?s1 m' := Some ''1''),
                     journal := journal ?s1 @ [OpacitySet (modal_cover ?s1 m') ''1''] \<rparr>"
    have c2: "closing T m p q ?s2"
      by (rule closing_extend[OF c1, where ps' = "[]" and TT = "{}" and MM = "{}"]) simp_all
    have "closing T m p q (resolve p' ?s2)"
      by (rule closing_resolve[OF c2]) (use a b AppearTick in simp_all)
    then show ?thesis by (simp add: AppearTick)
  next
    case (DisappearTick p')
    have "closing T m p q (resolve p' ?s1)"
      by (rule closing_resolve[OF c1]) (use a b DisappearTick in simp_all)
    then show ?thesis by (simp add: DisappearTick)
  qed
qed

lemma drain_timers: "timers (drain st) = timers st"
  by (rule drain_preserves[where I = "\<lambda>s. timers s = timers st"])
     (simp_all add: run_reaction_frame)

lemma drain_now: "now (drain st) = now st"
  by (rule drain_preserves[where I = "\<lambda>s. now s = now st"])
     (simp_all add: run_reaction_frame)

lemma closing_fire:
  assumes c: "closing T m p q st"
  shows "closing T m p q (fire k st)"
proof -
  let ?st0 = "drain st"
  have c0: "closing T m p q ?st0" by (rule closing_drain[OF c])
  show ?thesis
  proof (cases "k < length (timers ?st0) \<and> fst (timers ?st0 ! k) \<le> now ?st0")
    case True
    then have "closing T m p q (run_timer (snd (timers ?st0 ! k))
        (?st0\<lparr> timers := take k (timers ?st0) @ drop (Suc k) (timers ?st0) \<rparr>))"
      by (intro closing_run_timer[OF c0]) simp_all
    then have "closing T m p q (drain (run_timer (snd (timers ?st0 ! k))
        (?st0\<lparr> timers := take k (timers ?st0) @ drop (Suc k) (timers ?st0) \<rparr>)))"
      by (rule closing_drain)
    with True show ?thesis by (simp add: fire_def Let_def)
  next
    case False
    with c0 show ?thesis by (auto simp: fire_def Let_def)
  qed
qed

lemma closing_later_close:
  assumes c: "closing T m p q st"
  shows "closing T m p q (snd (close m' st))"
proof (cases "positive (modal_animationTime st m')")
  case True
  note eq = close_positive[OF True]
  note cd = closingD[OF c]
  show ?thesis
    by (rule closing_extend[OF c,
          where ps' = "[Pending [CloseThen m' (Suc (length (promises st)))], Pending []]"
            and TT = "{(now st + timer_delay (the (modal_animationTime st m')),
                        DisappearTick (length (promises st)))}"
            and MM = "{}"])
       (use cd(1,2) in \<open>auto simp: eq\<close>)
next
  case False
  note eq = close_instant[OF False]
  note cd = closingD[OF c]
  show ?thesis
    by (rule closing_extend[OF c,
          where ps' = "[Fulfilled, Pending []]" and TT = "{}"
            and MM = "{CloseThen m' (Suc (length (promises st)))}"])
       (use cd(1,2) in \<open>auto simp: eq\<close>)
qed

lemma closing_Modal_constructor:
  assumes inv: "page_inv st" and c: "closing T m p q st"
  shows "closing T m p q (snd (Modal_constructor opts st))"
proof -
  let ?st' = "snd (Modal_constructor opts st)"
  let ?L = "length (promises st)"
  note cd = closingD[OF c]
  note k = keeps_Modal_constructor[OF inv, of opts, unfolded keeps_def]
  have cov: "modal_cover ?st' m = modal_cover st m" using k cd(3) by simp
  have par: "parentNode ?st' (modal_cover st m) = parentNode st (modal_cover st m)"
    by (rule constructor_parentNode_old[OF inv cover_old[OF inv cd(3)]])
  have mt: "microtasks ?st' = microtasks st"
    and pt: "\<exists>x. (x = Pending [] \<or> x = Fulfilled) \<and>
               (promises ?st' = promises st \<or> promises ?st' = promises st @ [x])"
    and tt: "set (timers ?st') \<subseteq> set (timers st) \<union> {(now st, AppearTick (nextModal st) ?L)}"
  proof (atomize (full), cases "innerHTML opts \<noteq> None \<and> textContent opts \<noteq> None")
    case True
    then have "?st' = snd (Modal_fields st)"
      by (simp add: Modal_constructor_eq Modal_body_failure)
    then show "microtasks ?st' = microtasks st \<and>
        (\<exists>x. (x = Pending [] \<or> x = Fulfilled) \<and>
               (promises ?st' = promises st \<or> promises ?st' = promises st @ [x])) \<and>
        set (timers ?st') \<subseteq> set (timers st) \<union> {(now st, AppearTick (nextModal st) ?L)}"
      by (auto simp: Modal_fields_old[OF inv])
  next
    case False
    from constructed[OF inv False] obtain r where
      b: "?st' = built (nextModal st) r opts (snd (Modal_fields st))" by blast
    show "microtasks ?st' = microtasks st \<and>
        (\<exists>x. (x = Pending [] \<or> x = Fulfilled) \<and>
               (promises ?st' = promises st \<or> promises ?st' = promises st @ [x])) \<and>
        set (timers ?st') \<subseteq> set (timers st) \<union> {(now st, AppearTick (nextModal st) ?L)}"
      unfolding b by (auto simp: built_frame built_fields Modal_fields_old[OF inv])
  qed
  from pt obtain ps' where ps': "promises ?st' = promises st @ ps'"
    and nr: "\<And>y. y \<in> set ps' \<Longrightarrow> reactions_of y = []"
    by (metis append_Nil2 empty_iff empty_set reactions_of.simps set_ConsD)
  show ?thesis
  proof (rule closing_extend[OF c ps' _ tt, where MM = "{}"])
    show "reaction_promise x \<noteq> p \<and> reaction_promise x \<noteq> q"
      if "y \<in> set ps'" "x \<in> set (reactions_of y)" for y x
      using that nr by simp
    show "timer_promise (snd x) \<noteq> p \<and> timer_promise (snd x) \<noteq> q"
      if "x \<in> {(now st, AppearTick (nextModal st) ?L)}" for x
      using that cd(1,2) by auto
    show "now st \<le> now ?st'" "nextModal st \<le> nextModal ?st'" using k by simp_all
  qed (simp_all add: mt cov par)
qed

lemma closing_step:
  assumes inv: "page_inv st" and c: "closing T m p q st" and s: "step e st = Some st'"
  shows "closing T m p q st'"
proof (cases e)
  case (New opts)
  with s closing_Modal_constructor[OF inv c, of opts] show ?thesis by auto
next
  case (Close m')
  with s c closing_later_close[OF c, of m'] show ?thesis by (auto split: if_splits)
next
  case (Click m' t)
  show ?thesis
  proof (cases "m' < nextModal st \<and> t < nextNode st")
    case True
    with s Click click_cover_cases[OF inv, of m' t] c closing_later_close[OF c, of m']
    show ?thesis by auto
  next
    case False
    with s Click c show ?thesis by auto
  qed
next
  case (Tick dt)
  have "closing T m p q (st\<lparr> now := now st + dt \<rparr>)"
    by (rule closing_extend[OF c, where ps' = "[]" and TT = "{}" and MM = "{}"]) simp_all
  with s Tick show ?thesis by auto
next
  case Checkpoint
  with s closing_drain[OF c] show ?thesis by auto
next
  case (Fire k)
  with s closing_fire[OF c, of k] show ?thesis by auto
qed

lemma closing_exec:
  assumes "page_inv st" and "closing T m p q st" and "exec es st = Some st'"
  shows "closing T m p q st'"
proof -
  have "page_inv st' \<and> closing T m p q st'"
  proof (rule exec_preserves[where I = "\<lambda>s. page_inv s \<and> closing T m p q s", OF _ assms(3)])
    show "page_inv st \<and> closing T m p q st" using assms(1,2) by simp
    show "page_inv s' \<and> closing T m p q s'"
      if "page_inv s \<and> closing T m p q s" "step e s = Some s'" for e s s'
      using that page_inv_step[of s e s'] closing_step[of s T m p q e s'] by blast
  qed
  then show ?thesis by simp
qed

text \<open>The call itself starts the tracking.\<close>

lemma closing_close:
  assumes inv: "page_inv st" and m: "m < nextModal st"
    and pos: "positive (modal_animationTime st m)"
  shows "closing (now st + timer_delay (the (modal_animationTime st m))) m
           (length (promises st)) (Suc (length (promises st))) (snd (close m st))"
proof -
  let ?L = "length (promises st)"
  let ?T = "now st + timer_delay (the (modal_animationTime st m))"
  let ?s = "snd (close m st)"
  note eq = close_positive[OF pos]
  note ti = page_invD(3)[OF inv, unfolded tasks_inv_def]
  have r: "reaction_promise x < ?L" if "x \<in> set (all_reactions st)" for x
    using ti that by simp
  have t: "timer_promise (snd x) < ?L" if "x \<in> set (timers st)" for x
    using ti that by simp
  have P: "promises ?s = promises st @ [Pending [CloseThen m (Suc ?L)], Pending []]"
    and Tm: "timers ?s = timers st @ [(?T, DisappearTick ?L)]"
    and M: "microtasks ?s = microtasks st"
    by (simp_all add: eq)
  have np: "promises ?s ! ?L = Pending [CloseThen m (Suc ?L)]"
    and nq: "promises ?s ! Suc ?L = Pending []"
    by (simp_all add: P nth_append)
  show ?thesis
    unfolding closing_def
  proof (intro conjI ballI allI impI)
    show "?L < length (promises ?s)" "Suc ?L < length (promises ?s)" by (simp_all add: P)
    show "m < nextModal ?s" using m by (simp add: close_frame)
    show "?T \<le> now ?s" if "promises ?s ! ?L = Fulfilled" using that by (simp add: np)
    show "?T \<le> now ?s" "parentNode ?s (modal_cover ?s m) = None"
      if "promises ?s ! Suc ?L = Fulfilled" using that by (simp_all add: nq)
  next
    fix x assume x: "x \<in> set (timers ?s)"
    then consider "x = (?T, DisappearTick ?L)" | "x \<in> set (timers st)" by (auto simp: Tm)
    then show "timer_promise (snd x) \<noteq> Suc ?L"
      using t[of x] by cases auto
    assume "timer_promise (snd x) = ?L"
    with x t[of x] show "?T \<le> fst x" by (auto simp: Tm)
  next
    fix x assume x: "x \<in> set (microtasks ?s)"
    then have "x \<in> set (all_reactions st)" by (simp add: M all_reactions_def)
    from r[OF this] show "reaction_promise x \<noteq> ?L" by simp
    assume "reaction_promise x = Suc ?L"
    with r[OF \<open>x \<in> set (all_reactions st)\<close>]
    show "reaction_modal x = m" "?T \<le> now ?s" by simp_all
  next
    fix i x assume i: "i < length (promises ?s)"
      and x: "x \<in> set (reactions_of (promises ?s ! i))"
    from i have "i < Suc (Suc ?L)" by (simp add: P)
    then consider "i < ?L" | "i = ?L" | "i = Suc ?L" by linarith
    then have "reaction_promise x \<noteq> ?L \<and>
        (reaction_promise x = Suc ?L \<longrightarrow> reaction_modal x = m \<and> i = ?L)"
    proof cases
      case 1
      with x have "x \<in> set (reactions_of (promises st ! i))" by (simp add: P nth_append)
      with 1 have "x \<in> set (all_reactions st)"
        using reactions_nth_subset[of i "promises st"] by (auto simp: all_reactions_def)
      from r[OF this] show ?thesis by simp
    next
      case 2
      with x show ?thesis by (simp add: np)
    next
      case 3
      with x show ?thesis by (simp add: nq)
    qed
    then show "reaction_promise x \<noteq> ?L" by simp
    assume "reaction_promise x = Suc ?L"
    with \<open>reaction_promise x \<noteq> ?L \<and>
        (reaction_promise x = Suc ?L \<longrightarrow> reaction_modal x = m \<and> i = ?L)\<close>
    show "reaction_modal x = m" "i = ?L" by simp_all
  qed
qed

subsection \<open>The promise of close is fulfilled in the end\<close>

lemma dom_remove_frame:
  "promises (dom_remove c st) = promises st"
  "microtasks (dom_remove c st) = microtasks st"
  "timers (dom_remove c st) = timers st"
  "now (dom_remove c st) = now st"
  "nextModal (dom_remove c st) = nextModal st"
  "modal_cover (dom_remove c st) = modal_cover st"
  by (simp_all add: dom_remove_def split: option.splits)

lemma drain_length: "length (promises (drain st)) = length (promises st)"
  by (rule drain_preserves[where I = "\<lambda>s. length (promises s) = length (promises st)"])
     (simp_all add: run_reaction_frame)

lemma run_reaction_fulfilled:
  assumes "i < length (promises st)" and "promises st ! i = Fulfilled"
  shows "promises (run_reaction t st) ! i = Fulfilled"
proof (cases t)
  case (CloseThen m q)
  have "i < length (promises (dom_remove (modal_cover st m) st))"
    "promises (dom_remove (modal_cover st m) st) ! i = Fulfilled"
    using assms by (simp_all add: dom_remove_def split: option.splits)
  then show ?thesis by (simp add: CloseThen resolve_promises_nth)
qed

lemma drain_fulfilled:
  assumes "i < length (promises st)" and "promises st ! i = Fulfilled"
  shows "promises (drain st) ! i = Fulfilled"
proof -
  let ?I = "\<lambda>s. i < length (promises s) \<and> promises s ! i = Fulfilled"
  have "?I (drain st)"
  proof (rule drain_preserves[where I = ?I])
    show "?I st" using assms by simp
    show "?I (run_reaction t (s\<lparr> microtasks := ts \<rparr>))" if "?I s" for s t ts
      using that run_reaction_fulfilled[of i "s\<lparr> microtasks := ts \<rparr>" t]
      by (simp add: run_reaction_frame)
  qed
  then show ?thesis by simp
qed

lemma run_reaction_microtasks:
  "microtasks (run_reaction (CloseThen m q) st) =
     microtasks st @ (if q < length (promises st) then reactions_of (promises st ! q) else [])"
  by (simp add: resolve_microtasks dom_remove_def split: option.splits)

lemma run_reaction_own_promise:
  "q < length (promises st) \<Longrightarrow> promises (run_reaction (CloseThen m q) st) ! q = Fulfilled"
proof -
  assume "q < length (promises st)"
  then have "q < length (promises (dom_remove (modal_cover st m) st))"
    by (simp add: dom_remove_def split: option.splits)
  then show ?thesis by (simp add: resolve_promises_nth)
qed

text \<open>Every reaction that waits in the queue has its promise fulfilled by the checkpoint.\<close>

lemma drain_fulfils:
  assumes "tasks_inv st" and "x \<in> set (microtasks st)"
  shows "promises (drain st) ! reaction_promise x = Fulfilled"
  using assms
proof (induction st rule: drain.induct)
  case (1 st)
  from "1.prems"(2) obtain t ts where mt: "microtasks st = t # ts"
    by (cases "microtasks st") auto
  obtain m q where t: "t = CloseThen m q" by (cases t)
  let ?s = "st\<lparr> microtasks := ts \<rparr>"
  let ?s' = "run_reaction t ?s"
  have "t \<in> set (all_reactions st)" by (simp add: mt all_reactions_def)
  with "1.prems"(1) t have q: "q < length (promises st)" by (auto simp: tasks_inv_def)
  have ti: "tasks_inv ?s"
    by (rule tasks_invI[OF "1.prems"(1), where R = "{}" and T = "{}"])
       (auto simp: all_reactions_def mt)
  have rr: "set (all_reactions ?s') \<subseteq> set (all_reactions ?s)"
  proof -
    have "all_reactions (dom_remove (modal_cover ?s m) ?s) = all_reactions ?s"
      by (simp add: all_reactions_def dom_remove_def split: option.splits)
    with all_reactions_resolve[of q "dom_remove (modal_cover ?s m) ?s"]
    show ?thesis by (simp add: t)
  qed
  have ti': "tasks_inv ?s'"
    by (rule tasks_invI[OF ti, where R = "{}" and T = "{}"])
       (use rr in \<open>simp_all add: run_reaction_frame\<close>)
  have d: "drain st = drain ?s'" by (rule drain_Cons[OF mt])
  from "1.prems"(2) mt consider "x = t" | "x \<in> set ts" by auto
  then show ?case
  proof cases
    case 1
    have "promises ?s' ! q = Fulfilled"
      unfolding t by (rule run_reaction_own_promise) (simp add: q)
    moreover have "q < length (promises ?s')" using q by (simp add: run_reaction_frame)
    ultimately have "promises (drain ?s') ! q = Fulfilled" by (rule drain_fulfilled[rotated])
    with 1 t d show ?thesis by simp
  next
    case 2
    then have "x \<in> set (microtasks ?s')" by (simp add: t resolve_microtasks dom_remove_frame)
    from "1.IH"[OF mt ti' this] d show ?thesis by simp
  qed
qed

text \<open>Promises that no waiting reaction names are not touched by the checkpoint.\<close>

definition quiet :: "nat \<Rightarrow> page \<Rightarrow> bool" where
  "quiet L s \<longleftrightarrow>
     (\<forall>x \<in> set (microtasks s). reaction_promise x < L) \<and>
     (\<forall>i < L. i < length (promises s) \<longrightarrow>
        (\<forall>x \<in> set (reactions_of (promises s ! i)). reaction_promise x < L))"

lemma quiet_run_reaction:
  assumes qt: "quiet L s" and mt: "microtasks s = t # ts"
  shows "quiet L (run_reaction t (s\<lparr> microtasks := ts \<rparr>))"
    and "\<And>i. L \<le> i \<Longrightarrow> i < length (promises s) \<Longrightarrow>
           promises (run_reaction t (s\<lparr> microtasks := ts \<rparr>)) ! i = promises s ! i"
proof -
  obtain m q where t: "t = CloseThen m q" by (cases t)
  let ?d = "dom_remove (modal_cover s m) (s\<lparr> microtasks := ts \<rparr>)"
  have fd: "promises ?d = promises s" "microtasks ?d = ts"
    by (simp_all add: dom_remove_def split: option.splits)
  from qt mt t have q: "q < L" by (simp add: quiet_def)
  show "promises (run_reaction t (s\<lparr> microtasks := ts \<rparr>)) ! i = promises s ! i"
    if "L \<le> i" "i < length (promises s)" for i
    using that q by (simp add: t resolve_promises_nth fd)
  show "quiet L (run_reaction t (s\<lparr> microtasks := ts \<rparr>))"
    unfolding quiet_def
  proof (intro conjI ballI allI impI)
    fix x assume "x \<in> set (microtasks (run_reaction t (s\<lparr> microtasks := ts \<rparr>)))"
    then consider "x \<in> set ts" | "q < length (promises s)" "x \<in> set (reactions_of (promises s ! q))"
      by (auto simp: t resolve_microtasks fd split: if_splits)
    then show "reaction_promise x < L"
      using qt mt q by cases (auto simp: quiet_def)
  next
    fix i x assume i: "i < L" "i < length (promises (run_reaction t (s\<lparr> microtasks := ts \<rparr>)))"
      and x: "x \<in> set (reactions_of (promises (run_reaction t (s\<lparr> microtasks := ts \<rparr>)) ! i))"
    from i(2) have il: "i < length (promises s)" by (simp add: run_reaction_frame)
    from x have "x \<in> set (reactions_of (promises (resolve q ?d) ! i))" by (simp add: t)
    then have "x \<in> set (reactions_of (promises s ! i))"
      using resolve_reactions_nth[of i ?d x q] il by (simp add: fd)
    with qt i(1) il show "reaction_promise x < L" by (simp add: quiet_def)
  qed
qed

lemma quiet_drain:
  assumes "quiet L st" and "L \<le> i" and "i < length (promises st)"
  shows "promises (drain st) ! i = promises st ! i"
proof -
  let ?I = "\<lambda>s. quiet L s \<and> length (promises s) = length (promises st) \<and>
                 promises s ! i = promises st ! i"
  have "?I (drain st)"
  proof (rule drain_preserves[where I = ?I])
    show "?I st" using assms(1) by simp
    show "?I (run_reaction t (s\<lparr> microtasks := ts \<rparr>))"
      if "?I s" "microtasks s = t # ts" for s t ts
      using that quiet_run_reaction[of L s t ts] assms(2,3)
      by (simp add: run_reaction_frame)
  qed
  then show ?thesis by simp
qed

lemma close_settles:
  assumes inv: "page_inv st" and m: "m < nextModal st"
    and dt: "positive (modal_animationTime st m) \<Longrightarrow>
             timer_delay (the (modal_animationTime st m)) \<le> dt"
  shows "promises (fire (length (timers st))
                     ((snd (close m st))\<lparr> now := now (snd (close m st)) + dt \<rparr>))
           ! Suc (length (promises st)) = Fulfilled"
proof -
  let ?L = "length (promises st)"
  let ?k = "length (timers st)"
  let ?s1 = "snd (close m st)"
  let ?s1' = "?s1\<lparr> now := now ?s1 + dt \<rparr>"
  let ?st0 = "drain ?s1'"
  have inv1: "page_inv ?s1'" by (intro page_inv_tick page_inv_close inv m)
  have inv0: "page_inv ?st0" by (rule page_inv_drain[OF inv1])
  note ti = page_invD(3)[OF inv, unfolded tasks_inv_def]
  show ?thesis
  proof (cases "positive (modal_animationTime st m)")
    case True
    note eq = close_positive[OF True]
    let ?T = "now st + timer_delay (the (modal_animationTime st m))"
    have P: "promises ?s1' = promises st @ [Pending [CloseThen m (Suc ?L)], Pending []]"
      and Tm: "timers ?s1' = timers st @ [(?T, DisappearTick ?L)]"
      and M: "microtasks ?s1' = microtasks st"
      and N: "now ?s1' = now st + dt"
      by (simp_all add: eq)
    have qt: "quiet ?L ?s1'"
      unfolding quiet_def
    proof (intro conjI ballI allI impI)
      fix x assume "x \<in> set (microtasks ?s1')"
      then have "x \<in> set (all_reactions st)" by (simp add: M all_reactions_def)
      with ti show "reaction_promise x < ?L" by simp
    next
      fix i x assume i: "i < ?L" and x: "x \<in> set (reactions_of (promises ?s1' ! i))"
      then have "x \<in> set (reactions_of (promises st ! i))" by (simp add: P nth_append)
      with i have "x \<in> set (all_reactions st)"
        using reactions_nth_subset[of i "promises st"] by (auto simp: all_reactions_def)
      with ti show "reaction_promise x < ?L" by simp
    qed
    have P0: "promises ?st0 ! ?L = Pending [CloseThen m (Suc ?L)]"
      using quiet_drain[OF qt, of ?L] by (simp add: P nth_append)
    have L0: "length (promises ?st0) = Suc (Suc ?L)" by (simp add: drain_length P)
    have T0: "timers ?st0 = timers st @ [(?T, DisappearTick ?L)]" by (simp add: drain_timers Tm)
    have N0: "now ?st0 = now st + dt" by (simp add: drain_now N)
    have M0: "microtasks ?st0 = []" by (rule microtasks_drain)
    let ?c = "?st0\<lparr> timers := take ?k (timers ?st0) @ drop (Suc ?k) (timers ?st0) \<rparr>"
    let ?s2 = "run_timer (snd (timers ?st0 ! ?k)) ?c"
    have due: "?k < length (timers ?st0) \<and> fst (timers ?st0 ! ?k) \<le> now ?st0"
      using dt[OF True] by (simp add: T0 N0)
    have tk: "snd (timers ?st0 ! ?k) = DisappearTick ?L" by (simp add: T0)
    have "microtasks ?s2 = [CloseThen m (Suc ?L)]"
      by (simp add: tk resolve_microtasks M0 L0 P0)
    then have x: "CloseThen m (Suc ?L) \<in> set (microtasks ?s2)" by simp
    have "page_inv ?s2" by (intro page_inv_run_timer page_inv_cancel inv0)
    from drain_fulfils[OF page_invD(3)[OF this] x]
    have "promises (drain ?s2) ! Suc ?L = Fulfilled" by simp
    moreover have "fire ?k ?s1' = drain ?s2" using due by (simp add: fire_def Let_def)
    ultimately show ?thesis by simp
  next
    case False
    note eq = close_instant[OF False]
    have "CloseThen m (Suc ?L) \<in> set (microtasks ?s1')" by (simp add: eq)
    from drain_fulfils[OF page_invD(3)[OF inv1] this]
    have "promises ?st0 ! Suc ?L = Fulfilled" by simp
    moreover have "timers ?st0 = timers st" by (simp add: drain_timers eq)
    then have "fire ?k ?s1' = ?st0" by (simp add: fire_def Let_def)
    ultimately show ?thesis by simp
  qed
qed

lemma settle_run:
  "exec [Tick dt, Fire k] s = Some (fire k (s\<lparr> now := now s + dt \<rparr>))"
  by simp

text \<open>After \<open>close\<close> on a modal with a positive duration, once its promise is fulfilled
  the duration has passed and the cover is detached.\<close>

lemma close_fulfilled:
  assumes inv: "page_inv st" and m: "m < nextModal st"
    and pos: "positive (modal_animationTime st m)"
    and e: "exec es (snd (close m st)) = Some st2"
    and f: "promises st2 ! Suc (length (promises st)) = Fulfilled"
  shows "now st + timer_delay (the (modal_animationTime st m)) \<le> now st2"
    and "parentNode st2 (modal_cover st2 m) = None"
  using closingD(5)[OF closing_exec[OF page_inv_close[OF inv m] closing_close[OF inv m pos] e] f]
  by simp_all

section \<open>The journal of a construction\<close>

lemma run_timer_now: "now (run_timer t st) = now st"
  by (cases t) (simp_all add: resolve_frame)

lemma fire_now: "now (fire k st) = now st"
  by (simp add: fire_def Let_def drain_now run_timer_now)

lemma Modal_fields_elements:
  assumes inv: "page_inv st"
  shows "tagName (snd (Modal_fields st)) (modal_cover (snd (Modal_fields st)) (nextModal st)) = ''div''"
    and "attributes (snd (Modal_fields st)) (modal_cover (snd (Modal_fields st)) (nextModal st))
           = [(''class'', ''modal-cover'')]"
    and "modal (snd (Modal_fields st)) (modal_cover (snd (Modal_fields st)) (nextModal st))
           = Some (nextModal st)"
    and "tagName (snd (Modal_fields st)) (Suc (modal_cover (snd (Modal_fields st)) (nextModal st)))
           = ''div''"
    and "attributes (snd (Modal_fields st)) (Suc (modal_cover (snd (Modal_fields st)) (nextModal st)))
           = [(''class'', ''modal-content modal-plate'')]"
    and "style_opacity (snd (Modal_fields st))
           (Suc (modal_cover (snd (Modal_fields st)) (nextModal st))) = None"
    and "style_transition (snd (Modal_fields st))
           (Suc (modal_cover (snd (Modal_fields st)) (nextModal st))) = None"
    and "onclick (snd (Modal_fields st))
           (Suc (modal_cover (snd (Modal_fields st)) (nextModal st))) = None"
    and "payload (snd (Modal_fields st)) (modal_cover (snd (Modal_fields st)) (nextModal st)) = Empty"
  using page_invD(1)[OF inv]
  by (cases "window_modalRegion st"; simp add: Modal_fields_None Modal_fields_Some)+

lemma Modal_fields_fresh:
  assumes inv: "page_inv st"
    and n: "nextNode st \<le> n" "n < nextNode (snd (Modal_fields st))"
  shows "style_opacity (snd (Modal_fields st)) n = None"
    and "style_transition (snd (Modal_fields st)) n = None"
    and "onclick (snd (Modal_fields st)) n = None"
    and "payload (snd (Modal_fields st)) n = Empty"
proof -
  from n have "n = nextNode st \<or> n = Suc (nextNode st) \<or>
      (window_modalRegion st = None \<and> n = Suc (Suc (nextNode st)))"
    using page_invD(1)[OF inv]
    by (cases "window_modalRegion st") (auto simp: Modal_fields_None Modal_fields_Some)
  then show "style_opacity (snd (Modal_fields st)) n = None"
    and "style_transition (snd (Modal_fields st)) n = None"
    and "onclick (snd (Modal_fields st)) n = None"
    and "payload (snd (Modal_fields st)) n = Empty"
    using page_invD(1)[OF inv]
    by (cases "window_modalRegion st"; auto simp: Modal_fields_None Modal_fields_Some)+
qed

text \<open>What the field initializers write into the journal: the region's element first,
  when no region is published yet, then the cover and the content.\<close>

lemma Modal_fields_journal:
  assumes inv: "page_inv st"
  shows "journal (snd (Modal_fields st)) =
     journal st @
     (if window_modalRegion st = None
      then [Created (nextNode st), AttributeSet (nextNode st) ''data-modal-region'' [],
            Inserted (body st) (nextNode st)]
      else []) @
     [Created (modal_cover (snd (Modal_fields st)) (nextModal st)),
      AttributeSet (modal_cover (snd (Modal_fields st)) (nextModal st)) ''class'' ''modal-cover'',
      Created (Suc (modal_cover (snd (Modal_fields st)) (nextModal st))),
      AttributeSet (Suc (modal_cover (snd (Modal_fields st)) (nextModal st)))
        ''class'' ''modal-content modal-plate'']"
  using page_invD(1)[OF inv]
  by (cases "window_modalRegion st") (simp_all add: Modal_fields_None Modal_fields_Some)

section \<open>The claims of the specification\<close>

text \<open>
  C1. In every page the program can reach: when the options carry both \<open>textContent\<close> and
  \<open>innerHTML\<close> (whatever their values), construction fails with the configuration error;
  when they carry neither, construction succeeds and the content box is empty (no payload
  and no child).
\<close>

theorem constructor_content_options:
  assumes "exec es (initial_page k) = Some st"
  shows "(textContent opts \<noteq> None \<and> innerHTML opts \<noteq> None \<longrightarrow>
            fst (Modal_constructor opts st) = Inl ConfigurationError) \<and>
         (textContent opts = None \<and> innerHTML opts = None \<longrightarrow>
            fst (Modal_constructor opts st) = Inr (nextModal st) \<and>
            payload (snd (Modal_constructor opts st))
              (modal_content (snd (Modal_constructor opts st)) (nextModal st)) = Empty \<and>
            children (snd (Modal_constructor opts st))
              (modal_content (snd (Modal_constructor opts st)) (nextModal st)) = [])"
proof (intro conjI impI)
  assume "textContent opts \<noteq> None \<and> innerHTML opts \<noteq> None"
  then show "fst (Modal_constructor opts st) = Inl ConfigurationError"
    by (simp add: Modal_constructor_eq Modal_body_failure)
next
  let ?m = "nextModal st"
  let ?st1 = "snd (Modal_fields st)"
  let ?cov = "modal_cover ?st1 ?m"
  assume none: "textContent opts = None \<and> innerHTML opts = None"
  then have ok: "\<not> (innerHTML opts \<noteq> None \<and> textContent opts \<noteq> None)" by simp
  have inv: "page_inv st" by (rule reachable_inv[OF assms])
  have sg: "staged ?st1 ?m" by (rule Modal_fields_staged[OF inv])
  then have inv1: "page_inv ?st1" and n1: "nextModal ?st1 = Suc ?m" by (simp_all add: staged_def)
  from staged_region[OF inv1 n1] obtain r where w: "window_modalRegion ?st1 = Some r"
    and mi: "modal_inv ?st1 r ?m" by blast
  note md = modal_invD[OF mi]
  note new = Modal_fields_new[OF inv]
  note b = built_eq[OF sg ok w]
  show "fst (Modal_constructor opts st) = Inr ?m"
    by (simp add: Modal_constructor_eq Modal_body_success[OF ok])
  show "payload (snd (Modal_constructor opts st))
          (modal_content (snd (Modal_constructor opts st)) ?m) = Empty"
    unfolding Modal_constructor_eq b using none by (simp add: md(3) new(6) content_payload_def)
  show "children (snd (Modal_constructor opts st))
          (modal_content (snd (Modal_constructor opts st)) ?m) = []"
    unfolding Modal_constructor_eq b using md(2) by (simp add: md(3) new(8))
qed

theorem constructor_content_options_witness:
  "fst (Modal_constructor
          (no_options\<lparr> textContent := Some ''Hello'', innerHTML := Some ''<b>x</b>'' \<rparr>)
          (initial_page 0)) = Inl ConfigurationError \<and>
   fst (Modal_constructor no_options (initial_page 0)) = Inr 0 \<and>
   payload (snd (Modal_constructor no_options (initial_page 0)))
     (modal_content (snd (Modal_constructor no_options (initial_page 0))) 0) = Empty \<and>
   children (snd (Modal_constructor no_options (initial_page 0)))
     (modal_content (snd (Modal_constructor no_options (initial_page 0))) 0) = []"
  using constructor_content_options[of "[]" 0 "initial_page 0"
      "no_options\<lparr> textContent := Some ''Hello'', innerHTML := Some ''<b>x</b>'' \<rparr>"]
    constructor_content_options[of "[]" 0 "initial_page 0" no_options]
  by (simp add: no_options_def initial_page_simps)

text \<open>
  C2 (the code departs from the claim). The constructor stores \<open>options.animationTime\<close>
  only when the key \<open>fadeTime\<close> is present, and the default 250 otherwise: with
  \<open>{animationTime: 0}\<close> on a fresh page the modal's duration is 250, and transitions are
  not disabled.
\<close>

theorem animationTime_supplied_is_ignored:
  "modal_animationTime
     (snd (Modal_constructor (no_options\<lparr> animationTime := Some 0 \<rparr>) (initial_page 0))) 0
   = Some 250"
proof -
  let ?opts = "no_options\<lparr> animationTime := Some 0 \<rparr>"
  let ?st = "initial_page 0"
  let ?st1 = "snd (Modal_fields ?st)"
  have ok: "\<not> (innerHTML ?opts \<noteq> None \<and> textContent ?opts \<noteq> None)"
    by (simp add: no_options_def)
  have sg: "staged ?st1 (nextModal ?st)" by (rule Modal_fields_staged[OF page_inv_initial])
  have w: "window_modalRegion ?st1 = Some 0"
    by (rule Modal_fields_region_None[OF page_inv_initial]) (simp add: initial_page_simps)
  have "modal_animationTime (snd (Modal_constructor ?opts ?st)) (nextModal ?st)
      = stored_animationTime ?opts"
    unfolding Modal_constructor_eq built_eq[OF sg ok w] by simp
  then show ?thesis by (simp add: initial_page_simps stored_animationTime_def no_options_def)
qed

text \<open>
  C3 (amended). The claim says the error is raised before any DOM node is created or
  attached. On a fresh page, construction with both keys fails, and yet three elements
  have been created and the body has a new first child: the field initializers of the
  class run before the first statement of the constructor's body.
\<close>

theorem error_path_creates_elements_counterexample:
  "fst (Modal_constructor
          (no_options\<lparr> textContent := Some ''Hello'', innerHTML := Some ''<b>x</b>'' \<rparr>)
          (initial_page 0)) = Inl ConfigurationError \<and>
   nextNode (snd (Modal_constructor
          (no_options\<lparr> textContent := Some ''Hello'', innerHTML := Some ''<b>x</b>'' \<rparr>)
          (initial_page 0))) = nextNode (initial_page 0) + 3 \<and>
   children (initial_page 0) (body (initial_page 0)) = [] \<and>
   children (snd (Modal_constructor
          (no_options\<lparr> textContent := Some ''Hello'', innerHTML := Some ''<b>x</b>'' \<rparr>)
          (initial_page 0))) (body (initial_page 0)) = [nextNode (initial_page 0)]"
proof -
  let ?opts = "no_options\<lparr> textContent := Some ''Hello'', innerHTML := Some ''<b>x</b>'' \<rparr>"
  let ?st = "initial_page 0"
  have both: "innerHTML ?opts \<noteq> None \<and> textContent ?opts \<noteq> None"
    by (simp add: no_options_def)
  have w: "window_modalRegion ?st = None" by (simp add: initial_page_simps)
  note new = Modal_fields_new[OF page_inv_initial, of 0]
  note reg = Modal_fields_region_None[OF page_inv_initial w]
  have 1: "Modal_constructor ?opts ?st = (Inl ConfigurationError, snd (Modal_fields ?st))"
    by (simp only: Modal_constructor_eq Modal_body_failure[OF both])
  show ?thesis
    unfolding 1 fst_conv snd_conv
    using new(3) reg(3,5) by (simp add: initial_page_simps)
qed

text \<open>
  C3, as the code has it. In every page the program can reach, construction with both keys
  fails with the configuration error after the field initializers and before the first
  statement of the body. So: the cover and the content are two nodes created by this call
  (a \<open>div\<close> of class \<open>modal-cover\<close> that points back to the modal, and a \<open>div\<close> of
  class \<open>modal-content modal-plate\<close>), and the journal has grown by exactly the
  effects of the field initializers: the creation of these two elements and, when no
  region was published, the creation of the region's element and its insertion into the
  body. Nothing of the body has happened: the duration is still undefined, nothing is
  scheduled, no promise is made and the clock has not moved; the new cover and content
  are loose and empty; no node created by the call has a handler, an opacity, a
  transition or a payload; every node that existed keeps its parent, its opacity, its
  transition, its handler and its payload, and keeps its children unless it is the body;
  when a region was published already, the body keeps its children too and the \<open>modals\<close>
  query answers as before; when none was, the region has been created, its element is
  the first child of the body, and its \<open>modals\<close> query is empty.
\<close>

theorem configuration_error_after_field_initializers:
  assumes "exec es (initial_page k) = Some st"
    and "textContent opts \<noteq> None" and "innerHTML opts \<noteq> None"
  shows "fst (Modal_constructor opts st) = Inl ConfigurationError \<and>
    nextNode st \<le> (modal_cover (snd (Modal_constructor opts st)) (nextModal st)) \<and>
    (modal_content (snd (Modal_constructor opts st)) (nextModal st)) = Suc (modal_cover (snd (Modal_constructor opts st)) (nextModal st)) \<and>
    nextNode (snd (Modal_constructor opts st)) = Suc (modal_content (snd (Modal_constructor opts st)) (nextModal st)) \<and>
    tagName (snd (Modal_constructor opts st)) (modal_cover (snd (Modal_constructor opts st)) (nextModal st)) = ''div'' \<and>
    attributes (snd (Modal_constructor opts st)) (modal_cover (snd (Modal_constructor opts st)) (nextModal st)) = [(''class'', ''modal-cover'')] \<and>
    modal (snd (Modal_constructor opts st)) (modal_cover (snd (Modal_constructor opts st)) (nextModal st)) = Some (nextModal st) \<and>
    tagName (snd (Modal_constructor opts st)) (modal_content (snd (Modal_constructor opts st)) (nextModal st)) = ''div'' \<and>
    attributes (snd (Modal_constructor opts st)) (modal_content (snd (Modal_constructor opts st)) (nextModal st)) = [(''class'', ''modal-content modal-plate'')] \<and>
    journal (snd (Modal_constructor opts st)) =
      journal st @
      (if window_modalRegion st = None
       then [Created (nextNode st), AttributeSet (nextNode st) ''data-modal-region'' [],
             Inserted (body st) (nextNode st)]
       else []) @
      [Created (modal_cover (snd (Modal_constructor opts st)) (nextModal st)), AttributeSet (modal_cover (snd (Modal_constructor opts st)) (nextModal st)) ''class'' ''modal-cover'',
       Created (modal_content (snd (Modal_constructor opts st)) (nextModal st)), AttributeSet (modal_content (snd (Modal_constructor opts st)) (nextModal st)) ''class'' ''modal-content modal-plate''] \<and>
    modal_animationTime (snd (Modal_constructor opts st)) (nextModal st) = None \<and>
    timers (snd (Modal_constructor opts st)) = timers st \<and>
    promises (snd (Modal_constructor opts st)) = promises st \<and>
    microtasks (snd (Modal_constructor opts st)) = microtasks st \<and>
    now (snd (Modal_constructor opts st)) = now st \<and>
    parentNode (snd (Modal_constructor opts st)) (modal_cover (snd (Modal_constructor opts st)) (nextModal st)) = None \<and>
    children (snd (Modal_constructor opts st)) (modal_cover (snd (Modal_constructor opts st)) (nextModal st)) = [] \<and>
    onclick (snd (Modal_constructor opts st)) (modal_cover (snd (Modal_constructor opts st)) (nextModal st)) = None \<and>
    style_opacity (snd (Modal_constructor opts st)) (modal_cover (snd (Modal_constructor opts st)) (nextModal st)) = None \<and>
    style_transition (snd (Modal_constructor opts st)) (modal_cover (snd (Modal_constructor opts st)) (nextModal st)) = None \<and>
    parentNode (snd (Modal_constructor opts st)) (modal_content (snd (Modal_constructor opts st)) (nextModal st)) = None \<and>
    children (snd (Modal_constructor opts st)) (modal_content (snd (Modal_constructor opts st)) (nextModal st)) = [] \<and>
    payload (snd (Modal_constructor opts st)) (modal_content (snd (Modal_constructor opts st)) (nextModal st)) = Empty \<and>
    onclick (snd (Modal_constructor opts st)) (modal_content (snd (Modal_constructor opts st)) (nextModal st)) = None \<and>
    style_opacity (snd (Modal_constructor opts st)) (modal_content (snd (Modal_constructor opts st)) (nextModal st)) = None \<and>
    style_transition (snd (Modal_constructor opts st)) (modal_content (snd (Modal_constructor opts st)) (nextModal st)) = None \<and>
    (\<forall>n. nextNode st \<le> n \<and> n < nextNode (snd (Modal_constructor opts st)) \<longrightarrow>
       style_opacity (snd (Modal_constructor opts st)) n = None \<and>
       style_transition (snd (Modal_constructor opts st)) n = None \<and>
       onclick (snd (Modal_constructor opts st)) n = None \<and>
       payload (snd (Modal_constructor opts st)) n = Empty) \<and>
    (\<forall>n < nextNode st.
       parentNode (snd (Modal_constructor opts st)) n = parentNode st n \<and>
       style_opacity (snd (Modal_constructor opts st)) n = style_opacity st n \<and>
       style_transition (snd (Modal_constructor opts st)) n = style_transition st n \<and>
       onclick (snd (Modal_constructor opts st)) n = onclick st n \<and>
       payload (snd (Modal_constructor opts st)) n = payload st n \<and>
       (n \<noteq> body st \<longrightarrow> children (snd (Modal_constructor opts st)) n = children st n)) \<and>
    (\<forall>r. window_modalRegion st = Some r \<longrightarrow>
       window_modalRegion (snd (Modal_constructor opts st)) = Some r \<and>
       children (snd (Modal_constructor opts st)) (body st) = children st (body st) \<and>
       ModalRegion_modals (snd (Modal_constructor opts st)) r = ModalRegion_modals st r) \<and>
    (window_modalRegion st = None \<longrightarrow>
       window_modalRegion (snd (Modal_constructor opts st)) = Some 0 \<and>
       region_element (snd (Modal_constructor opts st)) 0 = nextNode st \<and>
       firstChild (snd (Modal_constructor opts st)) (body st) = Some (region_element (snd (Modal_constructor opts st)) 0) \<and>
       ModalRegion_modals (snd (Modal_constructor opts st)) 0 = [])"
proof -
  let ?st1 = "snd (Modal_fields st)"
  have inv: "page_inv st" by (rule reachable_inv[OF assms(1)])
  have 1: "Modal_constructor opts st = (Inl ConfigurationError, ?st1)"
    using assms(2,3) by (simp add: Modal_constructor_eq Modal_body_failure)
  note new = Modal_fields_new[OF inv]
  note old = Modal_fields_old[OF inv]
  note els = Modal_fields_elements[OF inv]
  note j = Modal_fields_journal[OF inv]
  have a: "parentNode ?st1 n = parentNode st n \<and>
      style_opacity ?st1 n = style_opacity st n \<and>
      style_transition ?st1 n = style_transition st n \<and>
      onclick ?st1 n = onclick st n \<and>
      payload ?st1 n = payload st n \<and>
      (n \<noteq> body st \<longrightarrow> children ?st1 n = children st n)"
    if "n < nextNode st" for n
    using that by (simp add: old)
  have b: "window_modalRegion ?st1 = Some r \<and> children ?st1 (body st) = children st (body st) \<and>
      ModalRegion_modals ?st1 r = ModalRegion_modals st r"
    if w: "window_modalRegion st = Some r" for r
  proof -
    note reg = Modal_fields_region_Some[OF w]
    note rd = region_invD[OF page_invD(4)[OF inv w]]
    have "map (modal ?st1) (children st (region_element st r))
        = map (modal st) (children st (region_element st r))"
      by (rule map_cong[OF refl]) (simp add: old(11) region_children_old[OF inv w])
    then have "ModalRegion_modals ?st1 r = ModalRegion_modals st r"
      by (simp add: ModalRegion_modals_def reg(3) reg(4)[OF rd(4)])
    then show ?thesis using reg(1) reg(4)[OF page_invD(1)[OF inv]] by simp
  qed
  have c: "window_modalRegion ?st1 = Some 0 \<and>
      region_element ?st1 0 = nextNode st \<and>
      firstChild ?st1 (body st) = Some (region_element ?st1 0) \<and>
      ModalRegion_modals ?st1 0 = []"
    if w: "window_modalRegion st = None"
    using Modal_fields_region_None[OF inv w]
    by (simp add: firstChild_def ModalRegion_modals_def)
  have e: "nextNode st \<le> modal_cover ?st1 (nextModal st) \<and>
      modal_content ?st1 (nextModal st) = Suc (modal_cover ?st1 (nextModal st)) \<and>
      nextNode ?st1 = Suc (modal_content ?st1 (nextModal st)) \<and>
      tagName ?st1 (modal_cover ?st1 (nextModal st)) = ''div'' \<and>
      attributes ?st1 (modal_cover ?st1 (nextModal st)) = [(''class'', ''modal-cover'')] \<and>
      modal ?st1 (modal_cover ?st1 (nextModal st)) = Some (nextModal st) \<and>
      tagName ?st1 (modal_content ?st1 (nextModal st)) = ''div'' \<and>
      attributes ?st1 (modal_content ?st1 (nextModal st))
        = [(''class'', ''modal-content modal-plate'')]"
    by (simp add: new els)
  have f: "modal_animationTime ?st1 (nextModal st) = None \<and>
      timers ?st1 = timers st \<and> promises ?st1 = promises st \<and>
      microtasks ?st1 = microtasks st \<and> now ?st1 = now st"
    by (simp add: new old)
  have g: "parentNode ?st1 (modal_cover ?st1 (nextModal st)) = None \<and>
      children ?st1 (modal_cover ?st1 (nextModal st)) = [] \<and>
      onclick ?st1 (modal_cover ?st1 (nextModal st)) = None \<and>
      style_opacity ?st1 (modal_cover ?st1 (nextModal st)) = None \<and>
      style_transition ?st1 (modal_cover ?st1 (nextModal st)) = None"
    by (simp add: new)
  have h: "parentNode ?st1 (modal_content ?st1 (nextModal st)) = None \<and>
      children ?st1 (modal_content ?st1 (nextModal st)) = [] \<and>
      payload ?st1 (modal_content ?st1 (nextModal st)) = Empty \<and>
      onclick ?st1 (modal_content ?st1 (nextModal st)) = None \<and>
      style_opacity ?st1 (modal_content ?st1 (nextModal st)) = None \<and>
      style_transition ?st1 (modal_content ?st1 (nextModal st)) = None"
    by (simp add: new els)
  have fr: "style_opacity ?st1 n = None \<and> style_transition ?st1 n = None \<and>
      onclick ?st1 n = None \<and> payload ?st1 n = Empty"
    if "nextNode st \<le> n \<and> n < nextNode ?st1" for n
    using Modal_fields_fresh[OF inv, of n] that by simp
  have jj: "journal ?st1 =
      journal st @
      (if window_modalRegion st = None
       then [Created (nextNode st), AttributeSet (nextNode st) ''data-modal-region'' [],
             Inserted (body st) (nextNode st)]
       else []) @
      [Created (modal_cover ?st1 (nextModal st)),
       AttributeSet (modal_cover ?st1 (nextModal st)) ''class'' ''modal-cover'',
       Created (modal_content ?st1 (nextModal st)),
       AttributeSet (modal_content ?st1 (nextModal st)) ''class'' ''modal-content modal-plate'']"
    unfolding new(4) by (rule j)
  show ?thesis
    unfolding 1 fst_conv snd_conv
    apply (intro conjI)
    using a b c e f g h jj fr by blast+
qed

theorem configuration_error_after_field_initializers_witness:
  "fst (Modal_constructor
          (no_options\<lparr> textContent := Some ''Hello'', innerHTML := Some ''<b>x</b>'' \<rparr>)
          (initial_page 0)) = Inl ConfigurationError \<and>
   journal (snd (Modal_constructor
          (no_options\<lparr> textContent := Some ''Hello'', innerHTML := Some ''<b>x</b>'' \<rparr>)
          (initial_page 0))) =
     [Created 1, AttributeSet 1 ''data-modal-region'' [], Inserted 0 1,
      Created 2, AttributeSet 2 ''class'' ''modal-cover'',
      Created 3, AttributeSet 3 ''class'' ''modal-content modal-plate''] \<and>
   style_opacity (snd (Modal_constructor
          (no_options\<lparr> textContent := Some ''Hello'', innerHTML := Some ''<b>x</b>'' \<rparr>)
          (initial_page 0))) 2 = None \<and>
   timers (snd (Modal_constructor
          (no_options\<lparr> textContent := Some ''Hello'', innerHTML := Some ''<b>x</b>'' \<rparr>)
          (initial_page 0))) = [] \<and>
   ModalRegion_modals (snd (Modal_constructor
          (no_options\<lparr> textContent := Some ''Hello'', innerHTML := Some ''<b>x</b>'' \<rparr>)
          (initial_page 0))) 0 = []"
proof -
  let ?opts = "no_options\<lparr> textContent := Some ''Hello'', innerHTML := Some ''<b>x</b>'' \<rparr>"
  let ?s = "snd (Modal_constructor ?opts (initial_page 0))"
  have e: "exec [] (initial_page 0) = Some (initial_page 0)" by simp
  have t: "textContent ?opts \<noteq> None" and h: "innerHTML ?opts \<noteq> None"
    by (simp_all add: no_options_def)
  have w: "window_modalRegion (initial_page 0) = None" by (simp add: initial_page_simps)
  note T = configuration_error_after_field_initializers[OF e t h]
  have cov: "modal_cover ?s (nextModal (initial_page 0)) = 2"
    using Modal_fields_region_None(5)[OF page_inv_initial w] t h
    by (simp add: Modal_constructor_eq Modal_body_failure initial_page_simps)
  from T have con: "modal_content ?s (nextModal (initial_page 0)) = 3" by (simp add: cov)
  from T have 1: "fst (Modal_constructor ?opts (initial_page 0)) = Inl ConfigurationError"
    by blast
  from T have "journal ?s = journal (initial_page 0) @
      (if window_modalRegion (initial_page 0) = None
       then [Created (nextNode (initial_page 0)),
             AttributeSet (nextNode (initial_page 0)) ''data-modal-region'' [],
             Inserted (body (initial_page 0)) (nextNode (initial_page 0))]
       else []) @
      [Created (modal_cover ?s (nextModal (initial_page 0))),
       AttributeSet (modal_cover ?s (nextModal (initial_page 0))) ''class'' ''modal-cover'',
       Created (modal_content ?s (nextModal (initial_page 0))),
       AttributeSet (modal_content ?s (nextModal (initial_page 0)))
         ''class'' ''modal-content modal-plate'']"
    by blast
  then have 2: "journal ?s =
     [Created 1, AttributeSet 1 ''data-modal-region'' [], Inserted 0 1,
      Created 2, AttributeSet 2 ''class'' ''modal-cover'',
      Created 3, AttributeSet 3 ''class'' ''modal-content modal-plate'']"
    unfolding cov con by (simp add: initial_page_simps initial_page_def)
  from T have "style_opacity ?s (modal_cover ?s (nextModal (initial_page 0))) = None" by blast
  then have 3: "style_opacity ?s 2 = None" by (simp add: cov)
  from T have 4: "timers ?s = []" by (simp add: initial_page_simps)
  from T w have 5: "ModalRegion_modals ?s 0 = []" by blast
  from 1 2 3 4 5 show ?thesis by blast
qed



text \<open>
  C5. In every page the program can reach: at most one \<open>ModalRegion\<close> object has ever
  been created; every modal holds the region that is published on \<open>window\<close>; a
  construction always ends with region 0 published and held by the new modal (the first
  construction creates it, the later ones find it); and once a region is published, its
  element is the first child of the body, and after any further events the same region
  is published, with the same element, still the first child of the body.
\<close>

theorem single_region:
  assumes "exec es (initial_page k) = Some st"
  shows "nextRegion st \<le> 1 \<and>
         (\<forall>m < nextModal st. window_modalRegion st = Some (modal_region st m)) \<and>
         window_modalRegion (snd (Modal_constructor opts st)) = Some 0 \<and>
         modal_region (snd (Modal_constructor opts st)) (nextModal st) = 0 \<and>
         (\<forall>r. window_modalRegion st = Some r \<longrightarrow>
            firstChild st (body st) = Some (region_element st r) \<and>
            (\<forall>es' st'. exec es' st = Some st' \<longrightarrow>
               window_modalRegion st' = Some r \<and>
               region_element st' r = region_element st r \<and>
               firstChild st' (body st') = Some (region_element st r)))"
proof -
  have inv: "page_inv st" by (rule reachable_inv[OF assms])
  note pd = page_invD[OF inv]
  have 1: "nextRegion st \<le> 1"
  proof (cases "window_modalRegion st")
    case None
    with pd(5) show ?thesis by simp
  next
    case (Some r)
    from region_invD(2)[OF pd(4)[OF Some]] show ?thesis by simp
  qed
  have 2: "window_modalRegion st = Some (modal_region st m)" if "m < nextModal st" for m
  proof (cases "window_modalRegion st")
    case None
    with pd(5) that show ?thesis by simp
  next
    case (Some r)
    from modal_invD(1)[OF region_invD(8)[OF pd(4)[OF Some] that]] Some show ?thesis by simp
  qed
  note 3 = constructor_region[OF inv, of opts]
  have 4: "firstChild st (body st) = Some (region_element st r) \<and>
      (\<forall>es' st'. exec es' st = Some st' \<longrightarrow>
         window_modalRegion st' = Some r \<and>
         region_element st' r = region_element st r \<and>
         firstChild st' (body st') = Some (region_element st r))"
    if w: "window_modalRegion st = Some r" for r
  proof (intro conjI allI impI)
    show "firstChild st (body st) = Some (region_element st r)"
      by (rule region_invD(6)[OF pd(4)[OF w]])
  next
    fix es' st' assume e: "exec es' st = Some st'"
    have inv': "page_inv st'" by (rule page_inv_exec[OF inv e])
    from keeps_exec[OF inv e] w
    show w': "window_modalRegion st' = Some r"
      and el: "region_element st' r = region_element st r"
      by (simp_all add: keeps_def)
    from region_invD(6)[OF page_invD(4)[OF inv' w']] el
    show "firstChild st' (body st') = Some (region_element st r)" by simp
  qed
  from 1 2 3 4 show ?thesis by blast
qed

theorem single_region_witness:
  "window_modalRegion (snd (Modal_constructor no_options (initial_page 1))) = Some 0 \<and>
   firstChild (snd (Modal_constructor no_options (initial_page 1)))
     (body (snd (Modal_constructor no_options (initial_page 1))))
   = Some (region_element (snd (Modal_constructor no_options (initial_page 1))) 0) \<and>
   window_modalRegion (snd (Modal_constructor no_options
       (snd (Modal_constructor no_options (initial_page 1))))) = Some 0 \<and>
   region_element (snd (Modal_constructor no_options
       (snd (Modal_constructor no_options (initial_page 1))))) 0
   = region_element (snd (Modal_constructor no_options (initial_page 1))) 0"
proof -
  let ?st = "snd (Modal_constructor no_options (initial_page 1))"
  let ?st' = "snd (Modal_constructor no_options ?st)"
  have e: "exec [New no_options] (initial_page 1) = Some ?st" by simp
  have e': "exec [New no_options] ?st = Some ?st'" by simp
  have e0: "exec [] (initial_page 1) = Some (initial_page 1)" by simp
  have w: "window_modalRegion ?st = Some 0"
    by (rule single_region[OF e0, of no_options, THEN conjunct2, THEN conjunct2, THEN conjunct1])
  note t = single_region[OF e, of no_options, THEN conjunct2, THEN conjunct2, THEN conjunct2,
      THEN conjunct2, rule_format, OF w]
  note u = t[THEN conjunct2, rule_format, OF e']
  from w t[THEN conjunct1] u keeps_exec[OF reachable_inv[OF e] e']
  show ?thesis by (simp add: keeps_def)
qed

text \<open>
  C6. The handler of the cover, on any page: when the target is the content element or
  lies below it, the handler returns and the page is as before (\<open>close\<close> is not called).
  And for a modal constructed in a page the program can reach, at any later time: a click
  whose target is the content leaves the page as it is; unless \<open>closeOnCoverClick\<close> was
  \<open>false\<close> the handler is installed and a click on the cover itself does what \<open>close\<close>
  does (which always changes the page); when it was \<open>false\<close> no handler is installed and
  a click on any target leaves the page as it is.
\<close>

theorem cover_click_dismissal:
  assumes "exec es (initial_page k) = Some st"
    and "fst (Modal_constructor opts st) = Inr m"
    and "exec es' (snd (Modal_constructor opts st)) = Some st2"
  shows "(t = modal_content s m' \<or> descendant (parentNode s) t (modal_content s m') \<longrightarrow>
            cover_onclick m' t s = Some s) \<and>
         (t = modal_content st2 m \<longrightarrow> click_cover m t st2 = Some st2) \<and>
         (closeOnCoverClick opts \<noteq> Some False \<longrightarrow>
            onclick st2 (modal_cover st2 m) = Some (CoverClick m) \<and>
            click_cover m (modal_cover st2 m) st2 = Some (snd (close m st2)) \<and>
            snd (close m st2) \<noteq> st2) \<and>
         (closeOnCoverClick opts = Some False \<longrightarrow>
            onclick st2 (modal_cover st2 m) = None \<and>
            click_cover m t st2 = Some st2)"
proof -
  let ?st1 = "snd (Modal_constructor opts st)"
  let ?f = "snd (Modal_fields st)"
  have inv: "page_inv st" by (rule reachable_inv[OF assms(1)])
  have inv1: "page_inv ?st1" by (rule page_inv_Modal_constructor[OF inv])
  have inv2: "page_inv st2" by (rule page_inv_exec[OF inv1 assms(3)])
  note ok = constructor_Inr(1)[OF assms(2)]
  note m = constructor_Inr(2)[OF assms(2)]
  have lt1: "m < nextModal ?st1" by (simp add: m constructor_nextModal[OF inv])
  note k = keeps_exec[OF inv1 assms(3), unfolded keeps_def]
  from k lt1 have lt2: "m < nextModal st2" by simp
  from constructor_region(1)[OF inv, of opts] k
  have w2: "window_modalRegion st2 = Some 0" by simp
  note md1 = modal_invD[OF region_invD(8)[OF page_invD(4)[OF inv1 constructor_region(1)[OF inv]] lt1]]
  note md2 = modal_invD[OF region_invD(8)[OF page_invD(4)[OF inv2 w2] lt2]]
  from constructed[OF inv ok] obtain r where
    b: "?st1 = built (nextModal st) r opts ?f" by blast
  have c1: "modal_cover ?st1 m = modal_cover ?f m" by (simp add: b built_frame)
  have h1: "onclick ?st1 (modal_cover ?st1 m) =
      (if closeOnCoverClick opts = Some False then None else Some (CoverClick m))"
    unfolding c1 unfolding b m
    by (simp add: built_fields Modal_fields_new(11)[OF inv])
  have c2: "modal_cover st2 m = modal_cover ?st1 m" using k lt1 by simp
  have "modal_cover ?st1 m < nextNode ?st1" using md1(4) by simp
  then have "onclick st2 (modal_cover ?st1 m) = onclick ?st1 (modal_cover ?st1 m)"
    using k by simp
  then have h2: "onclick st2 (modal_cover st2 m) =
      (if closeOnCoverClick opts = Some False then None else Some (CoverClick m))"
    by (simp add: c2 h1)
  have 1: "cover_onclick m' t s = Some s"
    if "t = modal_content s m' \<or> descendant (parentNode s) t (modal_content s m')"
    using that cover_onclick_content[of m' s] cover_onclick_descendant[of s t m'] by blast
  have 2: "click_cover m t st2 = Some st2" if "t = modal_content st2 m"
    using that by (simp add: click_cover_def h2 cover_onclick_content)
  have 3: "onclick st2 (modal_cover st2 m) = Some (CoverClick m) \<and>
      click_cover m (modal_cover st2 m) st2 = Some (snd (close m st2)) \<and>
      snd (close m st2) \<noteq> st2"
    if on: "closeOnCoverClick opts \<noteq> Some False"
  proof -
    have "isNested st2 (modal_cover st2 m) (modal_content st2 m) = Some False"
      unfolding isNested_def md2(3)
      using isNested_loop_older[of "parentNode st2" "modal_cover st2 m" "Suc (modal_cover st2 m)"]
        page_invD(2)[OF inv2] by simp
    then have "cover_onclick m (modal_cover st2 m) st2 = Some (snd (close m st2))"
      by (simp add: cover_onclick_def md2(3))
    then show ?thesis using on by (simp add: click_cover_def h2 close_changes)
  qed
  have 4: "onclick st2 (modal_cover st2 m) = None \<and> click_cover m t st2 = Some st2"
    if "closeOnCoverClick opts = Some False"
    using that by (simp add: click_cover_def h2)
  from 1 2 3 4 show ?thesis by blast
qed

theorem cover_click_dismissal_witness:
  "cover_onclick 0 9
     ((initial_page 0)\<lparr> modal_content := (\<lambda>m. 4), parentNode := (\<lambda>n. if n = 9 then Some 4 else None) \<rparr>)
   = Some ((initial_page 0)\<lparr> modal_content := (\<lambda>m. 4),
             parentNode := (\<lambda>n. if n = 9 then Some 4 else None) \<rparr>) \<and>
   click_cover 0 (modal_content (snd (Modal_constructor no_options (initial_page 0))) 0)
     (snd (Modal_constructor no_options (initial_page 0)))
   = Some (snd (Modal_constructor no_options (initial_page 0))) \<and>
   click_cover 0 (modal_cover (snd (Modal_constructor no_options (initial_page 0))) 0)
     (snd (Modal_constructor no_options (initial_page 0)))
   = Some (snd (close 0 (snd (Modal_constructor no_options (initial_page 0))))) \<and>
   click_cover 0
     (modal_cover (snd (Modal_constructor (no_options\<lparr> closeOnCoverClick := Some False \<rparr>)
        (initial_page 0))) 0)
     (snd (Modal_constructor (no_options\<lparr> closeOnCoverClick := Some False \<rparr>) (initial_page 0)))
   = Some (snd (Modal_constructor (no_options\<lparr> closeOnCoverClick := Some False \<rparr>)
        (initial_page 0)))"
proof -
  let ?s = "(initial_page 0)\<lparr> modal_content := (\<lambda>m. 4),
      parentNode := (\<lambda>n. if n = 9 then Some 4 else None) \<rparr>"
  let ?off = "no_options\<lparr> closeOnCoverClick := Some False \<rparr>"
  let ?a = "snd (Modal_constructor no_options (initial_page 0))"
  let ?b = "snd (Modal_constructor ?off (initial_page 0))"
  have e0: "exec [] (initial_page 0) = Some (initial_page 0)" by simp
  have ea: "exec [] ?a = Some ?a" and eb: "exec [] ?b = Some ?b" by simp_all
  have sa: "fst (Modal_constructor no_options (initial_page 0)) = Inr 0"
    using constructor_success[of no_options "initial_page 0"]
    by (simp add: no_options_def initial_page_simps)
  have sb: "fst (Modal_constructor ?off (initial_page 0)) = Inr 0"
    using constructor_success[of ?off "initial_page 0"]
    by (simp add: no_options_def initial_page_simps)
  have d: "descendant (parentNode ?s) 9 (modal_content ?s 0)"
    by (rule descendant.child) simp
  have on: "closeOnCoverClick no_options \<noteq> Some False" by (simp add: no_options_def)
  have off: "closeOnCoverClick ?off = Some False" by simp
  note A = cover_click_dismissal[OF e0 sa ea,
      of "modal_content ?a 0" ?s 0]
  note B = cover_click_dismissal[OF e0 sb eb, of "modal_cover ?b 0" ?s 0]
  from A d have 1: "cover_onclick 0 9 ?s = Some ?s"
    using cover_click_dismissal[OF e0 sa ea, of 9 ?s 0] by blast
  from A have 2: "click_cover 0 (modal_content ?a 0) ?a = Some ?a" by blast
  from A on have 3: "click_cover 0 (modal_cover ?a 0) ?a = Some (snd (close 0 ?a))" by blast
  from B off have 4: "click_cover 0 (modal_cover ?b 0) ?b = Some ?b" by blast
  from 1 2 3 4 show ?thesis by blast
qed

text \<open>
  C7 (amended). The claim speaks of every positive duration. The delay of a timer is a
  32-bit signed integer, so a duration of \<open>2 ^ 31\<close> milliseconds reaches the platform as
  a negative delay, which counts as 0: on a fresh page, a modal constructed with
  \<open>{fadeTime: 1, animationTime: 2147483648}\<close> has that duration stored, and the promise
  of its \<open>close\<close> is fulfilled by the timer while the clock has not moved at all.
\<close>

theorem close_resolves_at_once_counterexample:
  "modal_animationTime
     (snd (Modal_constructor
             (no_options\<lparr> animationTime := Some 2147483648, fadeTime := Some 1 \<rparr>)
             (initial_page 0))) 0 = Some 2147483648 \<and>
   (\<exists>st2.
      exec [Close 0, Fire 1]
        (snd (Modal_constructor
                (no_options\<lparr> animationTime := Some 2147483648, fadeTime := Some 1 \<rparr>)
                (initial_page 0))) = Some st2 \<and>
      promises st2 !
        fst (close 0
               (snd (Modal_constructor
                       (no_options\<lparr> animationTime := Some 2147483648, fadeTime := Some 1 \<rparr>)
                       (initial_page 0)))) = Fulfilled \<and>
      now st2 =
        now (snd (Modal_constructor
                    (no_options\<lparr> animationTime := Some 2147483648, fadeTime := Some 1 \<rparr>)
                    (initial_page 0))))"
proof -
  let ?opts = "no_options\<lparr> animationTime := Some 2147483648, fadeTime := Some 1 \<rparr>"
  let ?st = "snd (Modal_constructor ?opts (initial_page 0))"
  let ?c = "snd (close 0 ?st)"
  let ?st2 = "fire 1 ?c"
  have ok: "\<not> (innerHTML ?opts \<noteq> None \<and> textContent ?opts \<noteq> None)"
    by (simp add: no_options_def)
  have inv: "page_inv ?st" by (rule page_inv_Modal_constructor[OF page_inv_initial])
  have m: "0 < nextModal ?st" by (simp add: constructor_nextModal[OF page_inv_initial])
  have d: "modal_animationTime ?st 0 = Some 2147483648"
    using constructor_animationTime[OF page_inv_initial ok, of 0]
    by (simp add: initial_page_simps stored_animationTime_def no_options_def)
  from constructed[OF page_inv_initial ok, of 0] obtain r where
    b: "?st = built (nextModal (initial_page 0)) r ?opts (snd (Modal_fields (initial_page 0)))"
    by blast
  have k: "length (timers ?st) = 1"
    unfolding b
    by (simp add: built_fields Modal_fields_old[OF page_inv_initial] initial_page_simps
        stored_animationTime_def positive_def no_options_def)
  have z: "?c\<lparr> now := now ?c + 0 \<rparr> = ?c" by simp
  have f: "promises ?st2 ! Suc (length (promises ?st)) = Fulfilled"
    using close_settles[OF inv m, of 0] d
    by (simp add: k z timer_delay_def)
  have e: "exec [Close 0, Fire 1] ?st = Some ?st2" using m by simp
  have n: "now ?st2 = now ?st" by (simp add: fire_now close_frame)
  from d e f n show ?thesis by (simp only: close_fst) blast
qed

text \<open>
  C7, as the code has it. In every page the program can reach, for a modal with a
  positive duration \<open>d\<close> below \<open>2 ^ 31\<close> (a whole number of milliseconds): the promise that
  \<open>close\<close> returns is pending when \<open>close\<close> returns; whatever happens afterwards, in any
  page where that promise is fulfilled the clock has advanced by at least \<open>d\<close> since the
  call, the cover has no parent and the modal is not listed by the \<open>modals\<close> query of its
  region; and the promise does get fulfilled: after \<open>d\<close> time units, when the timer of
  this call fires.
\<close>

theorem close_waits_for_disappear:
  assumes "exec es (initial_page k) = Some st"
    and "m < nextModal st" and "modal_animationTime st m = Some d"
    and "0 < d" and "d < 2 ^ 31"
  shows "promises (snd (close m st)) ! fst (close m st) = Pending [] \<and>
         (\<forall>es' st2. exec es' (snd (close m st)) = Some st2 \<longrightarrow>
            promises st2 ! fst (close m st) = Fulfilled \<longrightarrow>
              now st + nat d \<le> now st2 \<and>
              parentNode st2 (modal_cover st2 m) = None \<and>
              Some m \<notin> set (ModalRegion_modals st2 (modal_region st2 m))) \<and>
         (\<exists>st2. exec [Tick (nat d), Fire (length (timers st))] (snd (close m st)) = Some st2 \<and>
            promises st2 ! fst (close m st) = Fulfilled)"
proof (intro conjI allI impI)
  have inv: "page_inv st" by (rule reachable_inv[OF assms(1)])
  from assms(3,4) have pos: "positive (modal_animationTime st m)" by (simp add: positive_def)
  have td: "timer_delay (the (modal_animationTime st m)) = nat d"
    using assms(3,4,5) by (simp add: timer_delay_small)
  show "promises (snd (close m st)) ! fst (close m st) = Pending []"
    by (simp add: close_fst close_positive[OF pos] nth_append)
  show "\<exists>st2. exec [Tick (nat d), Fire (length (timers st))] (snd (close m st)) = Some st2 \<and>
      promises st2 ! fst (close m st) = Fulfilled"
    unfolding settle_run close_fst
    using close_settles[OF inv assms(2), of "nat d"] td by simp
  fix es' st2
  assume e: "exec es' (snd (close m st)) = Some st2"
    and f: "promises st2 ! fst (close m st) = Fulfilled"
  note c = close_fulfilled[OF inv assms(2) pos e f[unfolded close_fst]]
  have inv2: "page_inv st2" by (rule page_inv_exec[OF page_inv_close[OF inv assms(2)] e])
  have m2: "m < nextModal st2"
    using keeps_exec[OF page_inv_close[OF inv assms(2)] e] assms(2)
    by (simp add: keeps_def close_frame)
  show "now st + nat d \<le> now st2" using c(1) td by simp
  show "parentNode st2 (modal_cover st2 m) = None" by (rule c(2))
  show "Some m \<notin> set (ModalRegion_modals st2 (modal_region st2 m))"
    by (rule detached_not_listed[OF inv2 m2 c(2)])
qed

theorem close_waits_for_disappear_witness:
  "\<exists>st2. exec [Tick 250, Fire (length (timers (snd (Modal_constructor no_options (initial_page 0)))))]
            (snd (close 0 (snd (Modal_constructor no_options (initial_page 0))))) = Some st2 \<and>
     promises st2 ! fst (close 0 (snd (Modal_constructor no_options (initial_page 0)))) = Fulfilled \<and>
     now (snd (Modal_constructor no_options (initial_page 0))) + 250 \<le> now st2 \<and>
     parentNode st2 (modal_cover st2 0) = None"
proof -
  let ?st = "snd (Modal_constructor no_options (initial_page 0))"
  have ok: "\<not> (innerHTML no_options \<noteq> None \<and> textContent no_options \<noteq> None)"
    by (simp add: no_options_def)
  have e: "exec [New no_options] (initial_page 0) = Some ?st" by simp
  have m: "0 < nextModal ?st"
    by (simp add: constructor_nextModal[OF page_inv_initial])
  have d: "modal_animationTime ?st 0 = Some 250"
    using constructor_animationTime[OF page_inv_initial ok, of 0]
    by (simp add: initial_page_simps stored_animationTime_def no_options_def)
  have z: "(0::int) < 250" and u: "(250::int) < 2 ^ 31" by simp_all
  note t = close_waits_for_disappear[OF e m d z u]
  from t obtain st2 where
    r: "exec [Tick (nat 250), Fire (length (timers ?st))] (snd (close 0 ?st)) = Some st2"
    and f: "promises st2 ! fst (close 0 ?st) = Fulfilled" by auto
  from t r f have "now ?st + nat 250 \<le> now st2 \<and> parentNode st2 (modal_cover st2 0) = None"
    by blast
  with r f show ?thesis by auto
qed

text \<open>
  C8. A modal whose animation duration is 0: \<open>appear\<close> returns a promise that is
  fulfilled already, writes no opacity and no transition, and schedules nothing. And in
  every page the program can reach, a modal constructed with duration 0 comes out with
  no opacity and no transition on its cover: it is fully visible at once.
\<close>

theorem appear_duration_zero:
  assumes "exec es (initial_page k) = Some st"
  shows "(modal_animationTime st m = Some 0 \<longrightarrow>
            promises (snd (appear m st)) ! fst (appear m st) = Fulfilled \<and>
            style_opacity (snd (appear m st)) = style_opacity st \<and>
            style_transition (snd (appear m st)) = style_transition st \<and>
            timers (snd (appear m st)) = timers st \<and>
            microtasks (snd (appear m st)) = microtasks st) \<and>
         (fst (Modal_constructor opts st) = Inr (nextModal st) \<and>
          modal_animationTime (snd (Modal_constructor opts st)) (nextModal st) = Some 0 \<longrightarrow>
            style_opacity (snd (Modal_constructor opts st))
              (modal_cover (snd (Modal_constructor opts st)) (nextModal st)) = None \<and>
            style_transition (snd (Modal_constructor opts st))
              (modal_cover (snd (Modal_constructor opts st)) (nextModal st)) = None \<and>
            timers (snd (Modal_constructor opts st)) = timers st)"
proof (intro conjI impI)
  assume z: "modal_animationTime st m = Some 0"
  then have np: "\<not> positive (modal_animationTime st m)" by (simp add: positive_def)
  show "promises (snd (appear m st)) ! fst (appear m st) = Fulfilled"
    "style_opacity (snd (appear m st)) = style_opacity st"
    "style_transition (snd (appear m st)) = style_transition st"
    "timers (snd (appear m st)) = timers st"
    "microtasks (snd (appear m st)) = microtasks st"
    unfolding appear_instant[OF np] by (simp_all add: appear_eq)
next
  let ?st' = "snd (Modal_constructor opts st)"
  assume a: "fst (Modal_constructor opts st) = Inr (nextModal st) \<and>
      modal_animationTime ?st' (nextModal st) = Some 0"
  have inv: "page_inv st" by (rule reachable_inv[OF assms])
  from a have ok: "\<not> (innerHTML opts \<noteq> None \<and> textContent opts \<noteq> None)"
    by (intro constructor_Inr(1)[of opts st "nextModal st"]) simp
  from constructed[OF inv ok] obtain r where
    b: "?st' = built (nextModal st) r opts (snd (Modal_fields st))" by blast
  from a have "stored_animationTime opts = Some 0"
    by (simp add: constructor_animationTime[OF inv ok])
  then have np: "\<not> positive (stored_animationTime opts)" by (simp add: positive_def)
  note new = Modal_fields_new[OF inv]
  note old = Modal_fields_old[OF inv]
  show "style_opacity ?st' (modal_cover ?st' (nextModal st)) = None"
    "style_transition ?st' (modal_cover ?st' (nextModal st)) = None"
    "timers ?st' = timers st"
    unfolding b using np by (simp_all add: built_fields built_frame new old)
qed

theorem appear_duration_zero_witness:
  "promises (snd (appear 0 (snd (Modal_constructor
       (no_options\<lparr> animationTime := Some 0, fadeTime := Some 0 \<rparr>) (initial_page 0)))))
     ! fst (appear 0 (snd (Modal_constructor
       (no_options\<lparr> animationTime := Some 0, fadeTime := Some 0 \<rparr>) (initial_page 0))))
     = Fulfilled \<and>
   style_opacity (snd (Modal_constructor
       (no_options\<lparr> animationTime := Some 0, fadeTime := Some 0 \<rparr>) (initial_page 0)))
     (modal_cover (snd (Modal_constructor
       (no_options\<lparr> animationTime := Some 0, fadeTime := Some 0 \<rparr>) (initial_page 0))) 0)
     = None"
proof -
  let ?opts = "no_options\<lparr> animationTime := Some 0, fadeTime := Some 0 \<rparr>"
  let ?st' = "snd (Modal_constructor ?opts (initial_page 0))"
  have ok: "\<not> (innerHTML ?opts \<noteq> None \<and> textContent ?opts \<noteq> None)"
    by (simp add: no_options_def)
  have t: "modal_animationTime ?st' 0 = Some 0"
    using constructor_animationTime[OF page_inv_initial ok, of 0]
    by (simp add: initial_page_simps stored_animationTime_def no_options_def)
  have s: "fst (Modal_constructor ?opts (initial_page 0)) = Inr 0"
    using constructor_success[OF ok, of "initial_page 0"] by (simp add: initial_page_simps)
  have e: "exec [New ?opts] (initial_page 0) = Some ?st'" by simp
  show ?thesis
    using appear_duration_zero[OF e, of 0 ?opts]
      appear_duration_zero[of "[]" 0 "initial_page 0" 0 ?opts] t s
    by (simp add: initial_page_simps)
qed

text \<open>
  C9. In every page the program can reach, a construction that passes the check of the
  options acts on the platform in this order, as its part of the journal shows: first
  the effects of the field initializers and of the statements that precede \<open>appear\<close>,
  none of which is an effect of \<open>appear\<close> or the insertion of the cover into the
  region's element; then the effects of \<open>appear\<close> (for a positive duration: opacity 0,
  the transition, the promise, the timer; otherwise the promise alone); and last, as
  the final effect of the construction, the insertion of the cover into the region's
  element. The insertion does not wait for \<open>appear\<close> to complete: when the constructor
  returns, the cover is a child of the region's element and the modal is listed by
  \<open>modals\<close>, while (for a positive duration) the promise of \<open>appear\<close> is still
  pending, its timer is still waiting and the opacity is still 0.
\<close>

theorem appear_before_attach:
  assumes "exec es (initial_page k) = Some st"
    and "\<not> (innerHTML opts \<noteq> None \<and> textContent opts \<noteq> None)"
  shows "(\<exists>js as.
            journal (snd (Modal_constructor opts st)) = journal st @ js @ as @ [Inserted (region_element (snd (Modal_constructor opts st)) (modal_region (snd (Modal_constructor opts st)) (nextModal st))) (modal_cover (snd (Modal_constructor opts st)) (nextModal st))] \<and>
            as = (if positive (modal_animationTime (snd (Modal_constructor opts st)) (nextModal st))
                  then [OpacitySet (modal_cover (snd (Modal_constructor opts st)) (nextModal st)) ''0'',
                        TransitionSet (modal_cover (snd (Modal_constructor opts st)) (nextModal st))
                          (''opacity '' @ string_of_nat (nat (the (modal_animationTime (snd (Modal_constructor opts st)) (nextModal st))))
                             @ ''ms ease''),
                        Promised (length (promises st)),
                        Scheduled (AppearTick (nextModal st) (length (promises st))) (now st)]
                  else [Promised (length (promises st))]) \<and>
            set js \<inter> set (as @ [Inserted (region_element (snd (Modal_constructor opts st)) (modal_region (snd (Modal_constructor opts st)) (nextModal st))) (modal_cover (snd (Modal_constructor opts st)) (nextModal st))]) = {}) \<and>
         parentNode (snd (Modal_constructor opts st)) (modal_cover (snd (Modal_constructor opts st)) (nextModal st)) = Some (region_element (snd (Modal_constructor opts st)) (modal_region (snd (Modal_constructor opts st)) (nextModal st))) \<and>
         Some (nextModal st) \<in> set (ModalRegion_modals (snd (Modal_constructor opts st)) (modal_region (snd (Modal_constructor opts st)) (nextModal st))) \<and>
         length (promises (snd (Modal_constructor opts st))) = Suc (length (promises st)) \<and>
         (positive (modal_animationTime (snd (Modal_constructor opts st)) (nextModal st)) \<longrightarrow>
            promises (snd (Modal_constructor opts st)) ! length (promises st) = Pending [] \<and>
            (now st, AppearTick (nextModal st) (length (promises st))) \<in> set (timers (snd (Modal_constructor opts st))) \<and>
            style_opacity (snd (Modal_constructor opts st)) (modal_cover (snd (Modal_constructor opts st)) (nextModal st)) = Some ''0'') \<and>
         (\<not> positive (modal_animationTime (snd (Modal_constructor opts st)) (nextModal st)) \<longrightarrow>
            promises (snd (Modal_constructor opts st)) ! length (promises st) = Fulfilled \<and>
            timers (snd (Modal_constructor opts st)) = timers st)"
proof -
  let ?m = "nextModal st"
  let ?st1 = "snd (Modal_fields st)"
  let ?st' = "snd (Modal_constructor opts st)"
  let ?cov = "modal_cover ?st1 ?m"
  have inv: "page_inv st" by (rule reachable_inv[OF assms(1)])
  from constructed[OF inv assms(2)] obtain r where w: "window_modalRegion ?st1 = Some r"
    and mi: "modal_inv ?st1 r ?m" and b: "?st' = built ?m r opts ?st1" by blast
  note md = modal_invD[OF mi]
  note old = Modal_fields_old[OF inv]
  let ?el = "region_element ?st1 r"
  let ?F = "(if window_modalRegion st = None
      then [Created (nextNode st), AttributeSet (nextNode st) ''data-modal-region'' [],
            Inserted (body st) (nextNode st)]
      else []) @
     [Created ?cov, AttributeSet ?cov ''class'' ''modal-cover'', Created (Suc ?cov),
      AttributeSet (Suc ?cov) ''class'' ''modal-content modal-plate'']"
  let ?js = "?F @ content_effects opts (Suc ?cov) @ [Inserted ?cov (Suc ?cov)] @
      onclick_effects opts ?m ?cov"
  let ?as = "if positive (stored_animationTime opts)
      then [OpacitySet ?cov ''0'',
            TransitionSet ?cov
              (''opacity '' @ string_of_nat (nat (the (stored_animationTime opts))) @ ''ms ease''),
            Promised (length (promises st)),
            Scheduled (AppearTick ?m (length (promises st))) (now st)]
      else [Promised (length (promises st))]"
  have a: "modal_animationTime ?st' ?m = stored_animationTime opts"
    by (rule constructor_animationTime[OF inv assms(2)])
  have c: "modal_cover ?st' ?m = ?cov" unfolding b by (simp add: built_frame)
  have el: "region_element ?st' (modal_region ?st' ?m) = ?el"
    unfolding b by (simp add: built_frame md(1))
  have ae: "appear_effects
      (?st1\<lparr> modal_animationTime := (modal_animationTime ?st1)(?m := stored_animationTime opts) \<rparr>)
      ?m = ?as"
    by (simp add: appear_effects_def old(2,4))
  have j: "journal ?st' = journal st @ ?js @ ?as @ [Inserted ?el ?cov]"
    unfolding b built_journal ae Modal_fields_journal[OF inv] by simp
  have ne: "Inserted (body st) (nextNode st) \<noteq> Inserted ?el ?cov"
    if "window_modalRegion st = None"
  proof -
    note reg = Modal_fields_region_None[OF inv that]
    from w reg(1) have "r = 0" by simp
    with reg(2,5) show ?thesis by simp
  qed
  have d: "set ?js \<inter> set (?as @ [Inserted ?el ?cov]) = {}"
    using ne
    by (auto simp: content_effects_def onclick_effects_def split: option.splits if_splits)
  have 1: "\<exists>js as.
      journal ?st' = journal st @ js @ as @ [Inserted ?el ?cov] \<and> as = ?as \<and>
      set js \<inter> set (as @ [Inserted ?el ?cov]) = {}"
    using j d by blast
  have 3: "parentNode ?st' ?cov = Some ?el"
    unfolding b by (simp add: built_fields)
  have "modal ?st' ?cov = Some ?m"
    unfolding b by (simp add: built_frame md(5))
  moreover have "?cov \<in> set (children ?st' ?el)"
    unfolding b by (simp add: built_fields)
  ultimately have "Some ?m \<in> set (map (modal ?st') (children ?st' ?el))"
    by (simp add: image_iff) metis
  then have 4: "Some ?m \<in> set (ModalRegion_modals ?st' (modal_region ?st' ?m))"
    unfolding ModalRegion_modals_def el .
  have 5: "length (promises ?st') = Suc (length (promises st))"
    unfolding b by (simp add: built_fields old(2))
  have 6: "promises ?st' ! length (promises st) = Pending [] \<and>
      (now st, AppearTick ?m (length (promises st))) \<in> set (timers ?st') \<and>
      style_opacity ?st' ?cov = Some ''0''"
    if "positive (stored_animationTime opts)"
    using that unfolding b by (simp add: built_fields built_frame old)
  have 7: "promises ?st' ! length (promises st) = Fulfilled \<and> timers ?st' = timers st"
    if "\<not> positive (stored_animationTime opts)"
    using that unfolding b by (simp add: built_fields built_frame old)
  show ?thesis
    unfolding a c el
    using 1 3 4 5 6 7 by (simp only: el) blast
qed

theorem appear_before_attach_witness:
  "(\<exists>js. journal (snd (Modal_constructor no_options (initial_page 0))) =
      js @ [OpacitySet 2 ''0'', TransitionSet 2 ''opacity 250ms ease'', Promised 0,
            Scheduled (AppearTick 0 0) 0, Inserted 1 2]) \<and>
   parentNode (snd (Modal_constructor no_options (initial_page 0))) 2 = Some 1 \<and>
   promises (snd (Modal_constructor no_options (initial_page 0))) ! 0 = Pending []"
proof -
  let ?s = "snd (Modal_constructor no_options (initial_page 0))"
  have ok: "\<not> (innerHTML no_options \<noteq> None \<and> textContent no_options \<noteq> None)"
    by (simp add: no_options_def)
  have e: "exec [] (initial_page 0) = Some (initial_page 0)" by simp
  have w: "window_modalRegion (initial_page 0) = None" by (simp add: initial_page_simps)
  have n: "nextModal (initial_page 0) = 0" "promises (initial_page 0) = []"
    "now (initial_page 0) = 0" "journal (initial_page 0) = []"
    by (simp_all add: initial_page_def)
  note reg = Modal_fields_region_None[OF page_inv_initial w]
  from constructed[OF page_inv_initial ok] obtain r where
    w1: "window_modalRegion (snd (Modal_fields (initial_page 0))) = Some r"
    and mi: "modal_inv (snd (Modal_fields (initial_page 0))) r (nextModal (initial_page 0))"
    and b: "?s = built (nextModal (initial_page 0)) r no_options (snd (Modal_fields (initial_page 0)))"
    by blast
  from w1 reg(1) have r: "r = 0" by simp
  have cov: "modal_cover ?s 0 = 2"
    unfolding b using reg(5) by (simp add: built_frame n initial_page_simps)
  have el: "region_element ?s (modal_region ?s 0) = 1"
    unfolding b using reg(2) modal_invD(1)[OF mi]
    by (simp add: built_frame n r initial_page_simps)
  have d: "modal_animationTime ?s 0 = Some 250"
    using constructor_animationTime[OF page_inv_initial ok, of 0]
    by (simp add: initial_page_simps stored_animationTime_def no_options_def)
  have str: "string_of_nat 250 = ''250''" by code_simp
  note T = appear_before_attach[OF e ok, unfolded n cov el d]
  from T obtain js as where
    j: "journal ?s = [] @ js @ as @ [Inserted 1 2]"
    and a: "as = (if positive (Some 250)
                  then [OpacitySet 2 ''0'',
                        TransitionSet 2 (''opacity '' @ string_of_nat (nat (the (Some 250))) @ ''ms ease''),
                        Promised (length ([]::promise list)),
                        Scheduled (AppearTick 0 (length ([]::promise list))) 0]
                  else [Promised (length ([]::promise list))])"
    by blast
  from a have "as = [OpacitySet 2 ''0'', TransitionSet 2 ''opacity 250ms ease'', Promised 0,
      Scheduled (AppearTick 0 0) 0]"
    by (simp add: positive_def str)
  with j have 1: "\<exists>js. journal ?s =
      js @ [OpacitySet 2 ''0'', TransitionSet 2 ''opacity 250ms ease'', Promised 0,
            Scheduled (AppearTick 0 0) 0, Inserted 1 2]"
    by simp
  from T have 2: "parentNode ?s 2 = Some 1" by blast
  from T have "positive (Some 250) \<longrightarrow> promises ?s ! length ([]::promise list) = Pending []"
    by blast
  then have 3: "promises ?s ! 0 = Pending []" by (simp add: positive_def)
  from 1 2 3 show ?thesis by blast
qed

text \<open>
  C10. In every page the program can reach, for a modal whose cover is detached (an
  earlier \<open>close\<close> has completed): another call of \<open>close\<close> leaves every child list and
  every parent pointer as it is; the reaction it registers, on whatever page it runs
  where the cover is still detached, leaves them as they are too (removing the detached
  cover does nothing); the returned promise gets fulfilled (once the duration has
  passed and the timer of this call fires); and in every later page the cover is still
  detached and the modal is not listed by the \<open>modals\<close> query of its region.
\<close>

theorem second_close_is_harmless:
  assumes "exec es (initial_page k) = Some st"
    and "m < nextModal st" and "parentNode st (modal_cover st m) = None"
  shows "children (snd (close m st)) = children st \<and>
         parentNode (snd (close m st)) = parentNode st \<and>
         (\<forall>s q. parentNode s (modal_cover s m) = None \<longrightarrow>
            children (run_reaction (CloseThen m q) s) = children s \<and>
            parentNode (run_reaction (CloseThen m q) s) = parentNode s) \<and>
         (\<forall>dt. (positive (modal_animationTime st m) \<longrightarrow>
                   nat (the (modal_animationTime st m)) \<le> dt) \<longrightarrow>
            (\<exists>st2. exec [Tick dt, Fire (length (timers st))] (snd (close m st)) = Some st2 \<and>
               promises st2 ! fst (close m st) = Fulfilled)) \<and>
         (\<forall>es' st2. exec es' (snd (close m st)) = Some st2 \<longrightarrow>
            parentNode st2 (modal_cover st2 m) = None \<and>
            Some m \<notin> set (ModalRegion_modals st2 (modal_region st2 m)))"
proof (intro conjI allI impI)
  have inv: "page_inv st" by (rule reachable_inv[OF assms(1)])
  have inv1: "page_inv (snd (close m st))" by (rule page_inv_close[OF inv assms(2)])
  show "children (snd (close m st)) = children st" "parentNode (snd (close m st)) = parentNode st"
    by (simp_all only: close_frame)
  show "children (run_reaction (CloseThen m q) s) = children s"
    "parentNode (run_reaction (CloseThen m q) s) = parentNode s"
    if "parentNode s (modal_cover s m) = None" for s q
    using that by (simp_all add: resolve_frame dom_remove_def)
  show "\<exists>st2. exec [Tick dt, Fire (length (timers st))] (snd (close m st)) = Some st2 \<and>
      promises st2 ! fst (close m st) = Fulfilled"
    if "positive (modal_animationTime st m) \<longrightarrow> nat (the (modal_animationTime st m)) \<le> dt"
    for dt
  proof -
    have "timer_delay (the (modal_animationTime st m)) \<le> dt"
      if pos: "positive (modal_animationTime st m)"
    proof -
      from pos have "0 \<le> the (modal_animationTime st m)"
        by (cases "modal_animationTime st m") (simp_all add: positive_def)
      from timer_delay_le[OF this] that pos \<open>positive (modal_animationTime st m) \<longrightarrow>
          nat (the (modal_animationTime st m)) \<le> dt\<close>
      show ?thesis by simp
    qed
    from close_settles[OF inv assms(2) this] show ?thesis
      unfolding settle_run close_fst by simp
  qed
  fix es' st2 assume e: "exec es' (snd (close m st)) = Some st2"
  have m1: "m < nextModal (snd (close m st))" using assms(2) by (simp only: close_frame)
  have d1: "parentNode (snd (close m st)) (modal_cover (snd (close m st)) m) = None"
    using assms(3) by (simp only: close_frame)
  show d2: "parentNode st2 (modal_cover st2 m) = None"
    by (rule detached_exec[OF inv1 m1 d1 e])
  have "m < nextModal st2" using keeps_exec[OF inv1 e] m1 by (simp add: keeps_def)
  then show "Some m \<notin> set (ModalRegion_modals st2 (modal_region st2 m))"
    by (rule detached_not_listed[OF page_inv_exec[OF inv1 e] _ d2])
qed

theorem second_close_is_harmless_witness:
  "children (snd (close 0
      (fire (length (timers (snd (Modal_constructor no_options (initial_page 0)))))
         ((snd (close 0 (snd (Modal_constructor no_options (initial_page 0)))))
            \<lparr> now := now (snd (close 0 (snd (Modal_constructor no_options (initial_page 0))))) + 250 \<rparr>))))
   = children
      (fire (length (timers (snd (Modal_constructor no_options (initial_page 0)))))
         ((snd (close 0 (snd (Modal_constructor no_options (initial_page 0)))))
            \<lparr> now := now (snd (close 0 (snd (Modal_constructor no_options (initial_page 0))))) + 250 \<rparr>)) \<and>
   Some 0 \<notin> set (ModalRegion_modals
      (snd (close 0
        (fire (length (timers (snd (Modal_constructor no_options (initial_page 0)))))
           ((snd (close 0 (snd (Modal_constructor no_options (initial_page 0)))))
              \<lparr> now := now (snd (close 0 (snd (Modal_constructor no_options (initial_page 0))))) + 250 \<rparr>))))
      (modal_region
        (snd (close 0
          (fire (length (timers (snd (Modal_constructor no_options (initial_page 0)))))
             ((snd (close 0 (snd (Modal_constructor no_options (initial_page 0)))))
                \<lparr> now := now (snd (close 0 (snd (Modal_constructor no_options (initial_page 0))))) + 250 \<rparr>))))
        0))"
proof -
  let ?st1 = "snd (Modal_constructor no_options (initial_page 0))"
  let ?k = "length (timers ?st1)"
  let ?st = "fire ?k ((snd (close 0 ?st1))\<lparr> now := now (snd (close 0 ?st1)) + 250 \<rparr>)"
  have ok: "\<not> (innerHTML no_options \<noteq> None \<and> textContent no_options \<noteq> None)"
    by (simp add: no_options_def)
  have inv1: "page_inv ?st1" by (rule page_inv_Modal_constructor[OF page_inv_initial])
  have m1: "0 < nextModal ?st1" by (simp add: constructor_nextModal[OF page_inv_initial])
  have d: "modal_animationTime ?st1 0 = Some 250"
    using constructor_animationTime[OF page_inv_initial ok, of 0]
    by (simp add: initial_page_simps stored_animationTime_def no_options_def)
  then have pos: "positive (modal_animationTime ?st1 0)" by (simp add: positive_def)
  have e: "exec [New no_options, Close 0, Tick 250, Fire ?k] (initial_page 0) = Some ?st"
    using m1 by simp
  have r: "exec [Tick 250, Fire ?k] (snd (close 0 ?st1)) = Some ?st" by simp
  have f: "promises ?st ! Suc (length (promises ?st1)) = Fulfilled"
    using close_settles[OF inv1 m1, of 250] d by (simp add: timer_delay_def)
  have det: "parentNode ?st (modal_cover ?st 0) = None"
    by (rule close_fulfilled(2)[OF inv1 m1 pos r f])
  have m: "0 < nextModal ?st"
    using keeps_exec[OF page_inv_close[OF inv1 m1] r] m1 by (simp add: keeps_def close_frame)
  have e2: "exec [] (snd (close 0 ?st)) = Some (snd (close 0 ?st))" by simp
  from second_close_is_harmless[OF e m det] e2 show ?thesis by blast
qed

end
